theory Spec2Isabelle
  imports Main "HOL-Library.Sublist"
begin

section \<open>Data model of the SSE server node\<close>

text \<open>
  The repository holds two near-duplicate implementations of the same Node-RED node:
  \<^verbatim>\<open>src/sse-server/sse-server.js\<close> (definitions suffixed \<open>_src\<close> where the two differ)
  and \<^verbatim>\<open>src/unnamed/part_000\<close> (definitions suffixed \<open>_part\<close> where the two differ).
  \<^verbatim>\<open>_serializeData\<close>, \<^verbatim>\<open>updateNodeStatus\<close>, \<^verbatim>\<open>handleServerEvent\<close> and the
  \<^verbatim>\<open>input\<close> handler are the same in both files and are modelled once.
\<close>

subsection \<open>JavaScript values\<close>

text \<open>
  Payloads, topics and the node's configured \<^verbatim>\<open>event\<close>/\<^verbatim>\<open>data\<close> are arbitrary
  JavaScript values. Numbers are restricted to integers.
\<close>

datatype jsval =
    JUndefined
  | JNull
  | JBool bool
  | JNum int
  | JStr string
  | JArr "jsval list"
  | JObj "(string \<times> jsval) list"

text \<open>JavaScript truthiness, as used by \<^verbatim>\<open>||\<close> and \<^verbatim>\<open>if\<close>.\<close>

fun truthy :: "jsval \<Rightarrow> bool" where
  "truthy JUndefined = False"
| "truthy JNull = False"
| "truthy (JBool b) = b"
| "truthy (JNum n) = (n \<noteq> 0)"
| "truthy (JStr s) = (s \<noteq> [])"
| "truthy (JArr xs) = True"
| "truthy (JObj kvs) = True"

text \<open>\<^verbatim>\<open>a || b\<close>: the left operand when it is truthy, else the right one.\<close>

definition js_or :: "jsval \<Rightarrow> jsval \<Rightarrow> jsval" where
  "js_or a b = (if truthy a then a else b)"

subsection \<open>Work items, subscribers, the node\<close>

text \<open>
  A response object \<^verbatim>\<open>msg.res\<close> (with its \<^verbatim>\<open>_res\<close>, \<^verbatim>\<open>_res.req\<close> and
  \<^verbatim>\<open>_res.req.socket\<close>) is identified by a handle.
\<close>

type_synonym sock = nat

record msg =
  msgid :: string
  payload :: jsval
  topic :: jsval
  res :: "sock option"

text \<open>
  The \<^verbatim>\<open>closeHandler\<close> closure created by \<^verbatim>\<open>registerSubscriber\<close>. In
  \<^verbatim>\<open>sse-server.js\<close> it captures the work item \<^verbatim>\<open>msg\<close>; in \<^verbatim>\<open>part_000\<close> it captures
  \<^verbatim>\<open>subscriberId\<close>, \<^verbatim>\<open>responseSocket\<close> and \<^verbatim>\<open>clientIP\<close>.
\<close>

datatype closure =
    Closure_src msg
  | Closure_part string sock jsval

record subscriber =
  sub_id :: string
  socket :: sock
  closeHandler :: "closure option"

record node =
  subscribers :: "subscriber list"
  event :: jsval
  data :: jsval

subsection \<open>Effects\<close>

text \<open>
  Calls on the transport. Each of them may throw; whether it does is decided by the
  environment, from the history of effects so far.
\<close>

datatype call =
    WriteHead sock nat "(string \<times> string) list"
  | Write sock string
  | Flush sock
  | End sock
  | On sock closure
  | RemoveListener sock closure

datatype exn =
    Error string
  | ReferenceError string
  | TypeError string

fun message :: "exn \<Rightarrow> string" where
  "message (Error m) = m"
| "message (ReferenceError m) = m"
| "message (TypeError m) = m"

text \<open>
  The observable effects, in the order they happen. \<open>Called c None\<close> is a transport call
  that returned, \<open>Called c (Some m)\<close> one that threw an error with message \<open>m\<close>.
  \<open>Status fill shape n\<close> is \<^verbatim>\<open>node.status({fill, shape, text})\<close> with the text
  \<^verbatim>\<open>`${n} client(s) connected`\<close>. \<open>Send m\<close> is \<^verbatim>\<open>node.send(m)\<close>, \<open>Done\<close> the call of the
  work item's completion callback.
\<close>

datatype effect =
    Called call "string option"
  | LogDebug string
  | LogWarn string
  | LogError exn
  | Status string string nat
  | Send msg
  | Done

type_synonym world = "effect list"

text \<open>
  The environment: which transport calls throw (given the history), which response
  objects have a \<^verbatim>\<open>flush\<close> method, the remote address of each connection, and the
  built-ins the code relies on: \<^verbatim>\<open>JSON.stringify\<close> (a string, or \<open>None\<close> for
  \<^verbatim>\<open>undefined\<close>), the decimal form of a number, and the string conversion of arrays and
  objects, which is \<open>None\<close> when the conversion throws a \<^verbatim>\<open>TypeError\<close> (as for the object
  \<^verbatim>\<open>{toString: 1}\<close>).
  \<open>red_global\<close> says whether the host process has a global variable \<^verbatim>\<open>RED\<close>: the
  module declares none, and \<^verbatim>\<open>unregisterSubscriber\<close> (unlike \<^verbatim>\<open>registerSubscriber\<close>
  and \<^verbatim>\<open>handleServerEvent\<close>) is not passed the runtime, so its \<^verbatim>\<open>RED.log.warn\<close>
  resolves \<^verbatim>\<open>RED\<close> in the global scope.
\<close>

record env =
  throws :: "world \<Rightarrow> call \<Rightarrow> string option"
  has_flush :: "sock \<Rightarrow> bool"
  remoteAddress :: "sock \<Rightarrow> jsval"
  stringify :: "jsval \<Rightarrow> string option"
  showNum :: "int \<Rightarrow> string"
  toString :: "jsval \<Rightarrow> string option"
  red_global :: bool

definition LF :: string where
  "LF = [CHR 0x0A]"

text \<open>
  A template literal \<^verbatim>\<open>`${v}`\<close>: the string, or \<open>None\<close> when the conversion of \<open>v\<close> to
  a string throws a \<^verbatim>\<open>TypeError\<close>. Only arrays and objects can make it throw.
\<close>

fun template :: "env \<Rightarrow> jsval \<Rightarrow> string option" where
  "template E (JStr s) = Some s"
| "template E JUndefined = Some ''undefined''"
| "template E JNull = Some ''null''"
| "template E (JBool b) = Some (if b then ''true'' else ''false'')"
| "template E (JNum k) = Some (showNum E k)"
| "template E (JArr xs) = toString E (JArr xs)"
| "template E (JObj kvs) = toString E (JObj kvs)"

text \<open>One transport call: it is recorded with its outcome.\<close>

definition invoke :: "env \<Rightarrow> call \<Rightarrow> world \<Rightarrow> exn option \<times> world" where
  "invoke E c w =
     (case throws E w c of
        None \<Rightarrow> (None, w @ [Called c None])
      | Some m \<Rightarrow> (Some (Error m), w @ [Called c (Some m)]))"

text \<open>A sequence of statements that are transport calls: the first throw ends it.\<close>

fun calls :: "env \<Rightarrow> call list \<Rightarrow> world \<Rightarrow> exn option \<times> world" where
  "calls E [] w = (None, w)"
| "calls E (c # cs) w =
     (case invoke E c w of
        (Some e, w') \<Rightarrow> (Some e, w')
      | (None, w') \<Rightarrow> calls E cs w')"

text \<open>
  The statements that write one frame: three \<^verbatim>\<open>write\<close> calls and
  \<^verbatim>\<open>if (x.flush) x.flush()\<close>.
\<close>

definition frame :: "env \<Rightarrow> sock \<Rightarrow> string \<Rightarrow> string \<Rightarrow> string \<Rightarrow> call list" where
  "frame E s ev d i =
     [Write s (''event: '' @ ev @ LF),
      Write s (''data: '' @ d @ LF),
      Write s (''id: '' @ i @ LF @ LF)]
     @ (if has_flush E s then [Flush s] else [])"

section \<open>The functions of both files\<close>

text \<open>\<^verbatim>\<open>_serializeData(data)\<close> (lines 6-8 of both files)\<close>

definition serializeData :: "env \<Rightarrow> jsval \<Rightarrow> string option" where
  "serializeData E d = (case d of JStr s \<Rightarrow> Some s | _ \<Rightarrow> stringify E d)"

text \<open>
  \<^verbatim>\<open>`${_serializeData(v)}`\<close>: \<^verbatim>\<open>_serializeData\<close> returns a string or \<^verbatim>\<open>undefined\<close>, and
  the template literal turns \<^verbatim>\<open>undefined\<close> into the string \<^verbatim>\<open>undefined\<close>.
\<close>

definition serialized :: "env \<Rightarrow> jsval \<Rightarrow> string" where
  "serialized E v = (case serializeData E v of Some s \<Rightarrow> s | None \<Rightarrow> ''undefined'')"

text \<open>\<^verbatim>\<open>updateNodeStatus(node, type)\<close> (lines 15-21 of both files)\<close>

definition updateNodeStatus :: "node \<Rightarrow> string \<Rightarrow> world \<Rightarrow> world" where
  "updateNodeStatus n ty w =
     w @ [Status (if ty = ''success'' then ''green'' else ''red'') ''dot''
            (length (subscribers n))]"

text \<open>
  The callback that \<^verbatim>\<open>handleServerEvent\<close> passes to \<^verbatim>\<open>filter\<close> (lines 120-140 of
  \<^verbatim>\<open>sse-server.js\<close>, 184-204 of \<^verbatim>\<open>part_000\<close>): it returns whether the subscriber is kept.
\<close>

definition sendEvent :: "env \<Rightarrow> string \<Rightarrow> string \<Rightarrow> string \<Rightarrow> subscriber \<Rightarrow> world \<Rightarrow> bool \<times> world" where
  "sendEvent E ev d i sub w =
     (case calls E (frame E (socket sub) ev d i) w of
        (None, w1) \<Rightarrow> (True, w1)
      | (Some e, w1) \<Rightarrow>
          (let w2 = w1 @ [LogWarn (''Error sending event to subscriber '' @ sub_id sub
                                    @ '': '' @ message e)] in
           case invoke E (End (socket sub)) w2 of
             (None, w3) \<Rightarrow> (False, w3)
           | (Some e', w3) \<Rightarrow>
               (False, w3 @ [LogWarn (''Error ending subscriber response: '' @ message e')])))"

text \<open>\<^verbatim>\<open>Array.prototype.filter\<close> with a callback that has effects.\<close>

fun filter_subscribers ::
  "(subscriber \<Rightarrow> world \<Rightarrow> bool \<times> world) \<Rightarrow> subscriber list \<Rightarrow> world \<Rightarrow> subscriber list \<times> world" where
  "filter_subscribers f [] w = ([], w)"
| "filter_subscribers f (sub # subs) w =
     (case f sub w of
        (keep, w1) \<Rightarrow>
          (case filter_subscribers f subs w1 of
             (kept, w2) \<Rightarrow> (if keep then sub # kept else kept, w2)))"

text \<open>
  \<^verbatim>\<open>handleServerEvent(RED, node, msg)\<close> (lines 115-141 and 173-205). The template literal
  of the event name is evaluated first, outside any \<^verbatim>\<open>try\<close>: when the conversion throws,
  the function throws before it logs or writes anything.
\<close>

definition handleServerEvent :: "env \<Rightarrow> node \<Rightarrow> msg \<Rightarrow> world \<Rightarrow> exn option \<times> node \<times> world" where
  "handleServerEvent E n m w =
     (case template E (js_or (event n) (js_or (topic m) (JStr ''message''))) of
        None \<Rightarrow> (Some (TypeError ''Cannot convert object to primitive value''), n, w)
      | Some ev \<Rightarrow>
          (let d = serialized E (js_or (data n) (payload m));
               w1 = w @ [LogDebug (''Sent event: '' @ ev), LogDebug (''Data: '' @ d)]
           in case filter_subscribers (sendEvent E ev d (msgid m)) (subscribers n) w1 of
                (kept, w2) \<Rightarrow> (None, n\<lparr>subscribers := kept\<rparr>, w2)))"


section \<open>Registration, removal and drain\<close>

text \<open>\<^verbatim>\<open>findIndex\<close> (\<open>None\<close> for \<open>-1\<close>), \<^verbatim>\<open>splice(i, 1)\<close> and \<^verbatim>\<open>forEach\<close>.\<close>

fun findIndex :: "('a \<Rightarrow> bool) \<Rightarrow> 'a list \<Rightarrow> nat option" where
  "findIndex P [] = None"
| "findIndex P (x # xs) = (if P x then Some 0 else map_option Suc (findIndex P xs))"

definition splice1 :: "nat \<Rightarrow> 'a list \<Rightarrow> 'a list" where
  "splice1 i xs = take i xs @ drop (Suc i) xs"

fun forEach ::
  "(subscriber \<Rightarrow> world \<Rightarrow> exn option \<times> world) \<Rightarrow> subscriber list \<Rightarrow> world \<Rightarrow> exn option \<times> world" where
  "forEach f [] w = (None, w)"
| "forEach f (sub # subs) w =
     (case f sub w of
        (Some e, w1) \<Rightarrow> (Some e, w1)
      | (None, w1) \<Rightarrow> forEach f subs w1)"

text \<open>
  The opening of the stream, the same statements in both files (lines 36-46 and 36-48):
  \<^verbatim>\<open>writeHead\<close>, the \<^verbatim>\<open>open\<close> frame with
  \<^verbatim>\<open>_serializeData(msg.payload || 'Connection opened')\<close>, the flush.
\<close>

definition openStream :: "env \<Rightarrow> msg \<Rightarrow> sock \<Rightarrow> call list" where
  "openStream E m s =
     WriteHead s 200
       [(''Content-Type'', ''text/event-stream''),
        (''Cache-Control'', ''no-cache''),
        (''Connection'', ''keep-alive'')]
     # frame E s ''open''
         (serialized E (js_or (payload m) (JStr ''Connection opened'')))
         (msgid m)"

text \<open>
  \<^verbatim>\<open>RED.log.warn\<close> inside \<^verbatim>\<open>unregisterSubscriber\<close>, where \<^verbatim>\<open>RED\<close> is a free variable
  of the module.
\<close>

definition warn_unbound :: "env \<Rightarrow> string \<Rightarrow> world \<Rightarrow> exn option \<times> world" where
  "warn_unbound E s w =
     (if red_global E then (None, w @ [LogWarn s])
      else (Some (ReferenceError ''RED is not defined''), w))"

subsection \<open>src/sse-server/sse-server.js\<close>

text \<open>\<^verbatim>\<open>unregisterSubscriber(node, msg)\<close> of \<^verbatim>\<open>sse-server.js\<close> (lines 81-107)\<close>

definition unregisterSubscriber_src :: "env \<Rightarrow> node \<Rightarrow> msg \<Rightarrow> world \<Rightarrow> exn option \<times> node \<times> world" where
  "unregisterSubscriber_src E n m w =
     (case (case res m of
              None \<Rightarrow> warn_unbound E (''Error writing close event: '' @ ''msg.res is undefined'') w
            | Some s \<Rightarrow>
                (case calls E (frame E s ''close'' ''The connection was closed by the server.''
                                 (msgid m)) w of
                   (None, w1) \<Rightarrow> (None, w1)
                 | (Some e, w1) \<Rightarrow>
                     warn_unbound E (''Error writing close event: '' @ message e) w1)) of
        (Some e, w1) \<Rightarrow> (Some e, n, w1)
      | (None, w1) \<Rightarrow>
          (let w2 = w1 @ [Send (m\<lparr>payload := JObj [(''event'', JStr ''disconnect'')]\<rparr>)];
               n1 = n\<lparr>subscribers := filter (\<lambda>sub. sub_id sub \<noteq> msgid m) (subscribers n)\<rparr>
           in case res m of
                None \<Rightarrow>
                  (case warn_unbound E (''Error closing response: '' @ ''msg.res is undefined'') w2 of
                     (r, w3) \<Rightarrow> (r, n1, w3))
              | Some s \<Rightarrow>
                  (case invoke E (End s) w2 of
                     (None, w3) \<Rightarrow> (None, n1, w3)
                   | (Some e, w3) \<Rightarrow>
                       (case warn_unbound E (''Error closing response: '' @ message e) w3 of
                          (r, w4) \<Rightarrow> (r, n1, w4)))))"

text \<open>
  The \<^verbatim>\<open>closeHandler\<close> closure of \<^verbatim>\<open>sse-server.js\<close> (lines 55-60), over the captured
  \<^verbatim>\<open>msg\<close>.
\<close>

definition closeHandler_src :: "env \<Rightarrow> msg \<Rightarrow> node \<Rightarrow> world \<Rightarrow> exn option \<times> node \<times> world" where
  "closeHandler_src E m n w =
     (case unregisterSubscriber_src E n m w of
        (Some e, n1, w1) \<Rightarrow> (Some e, n1, w1)
      | (None, n1, w1) \<Rightarrow>
          (let w2 = updateNodeStatus n1 ''success'' w1 in
           case res m of
             None \<Rightarrow> (Some (TypeError ''msg.res is undefined''), n1, w2)
           | Some s \<Rightarrow>
               (case invoke E (RemoveListener s (Closure_src m)) w2 of
                  (r, w3) \<Rightarrow> (r, n1, w3))))"

text \<open>\<^verbatim>\<open>registerSubscriber(RED, node, msg)\<close> of \<^verbatim>\<open>sse-server.js\<close> (lines 33-71)\<close>

definition registerSubscriber_src :: "env \<Rightarrow> node \<Rightarrow> msg \<Rightarrow> world \<Rightarrow> exn option \<times> node \<times> world" where
  "registerSubscriber_src E n m w =
     (let w0 = w @ [LogDebug ''Client connected''] in
      case res m of
        None \<Rightarrow> (Some (TypeError ''msg.res is undefined''), n, w0)
      | Some s \<Rightarrow>
          (case calls E (openStream E m s) w0 of
             (Some e, w1) \<Rightarrow> (Some e, n, w1)
           | (None, w1) \<Rightarrow>
               (let m1 = m\<lparr>payload := JObj [(''event'', JStr ''connect'')]\<rparr>;
                    w2 = w1 @ [Send m1]
                in case invoke E (On s (Closure_src m1)) w2 of
                     (Some e, w3) \<Rightarrow> (Some e, n, w3)
                   | (None, w3) \<Rightarrow>
                       (let n1 = (if \<not> list_ex (\<lambda>sub. sub_id sub = msgid m) (subscribers n)
                                  then n\<lparr>subscribers := subscribers n @
                                         [\<lparr>sub_id = msgid m, socket = s, closeHandler = None\<rparr>]\<rparr>
                                  else n)
                        in (None, n1, updateNodeStatus n1 ''success'' w3)))))"

text \<open>
  The callback of \<^verbatim>\<open>forEach\<close> in the \<^verbatim>\<open>runtime-event\<close> handler of \<^verbatim>\<open>sse-server.js\<close>
  (lines 177-189).
\<close>

definition closeSubscriber_src :: "env \<Rightarrow> subscriber \<Rightarrow> world \<Rightarrow> exn option \<times> world" where
  "closeSubscriber_src E sub w =
     (case calls E (frame E (socket sub) ''close'' ''Collection closed'' ''0'') w of
        (Some e, w1) \<Rightarrow> (Some e, w1)
      | (None, w1) \<Rightarrow>
          (case invoke E (End (socket sub)) w1 of
             (None, w2) \<Rightarrow> (None, w2)
           | (Some e, w2) \<Rightarrow>
               (None, w2 @ [LogWarn (''Error closing subscriber response: '' @ message e)])))"

text \<open>The \<^verbatim>\<open>runtime-event\<close> handler of \<^verbatim>\<open>sse-server.js\<close> (lines 175-192)\<close>

definition runtimeHandler_src :: "env \<Rightarrow> node \<Rightarrow> world \<Rightarrow> exn option \<times> node \<times> world" where
  "runtimeHandler_src E n w =
     (case forEach (closeSubscriber_src E) (subscribers n) (updateNodeStatus n ''success'' w) of
        (Some e, w1) \<Rightarrow> (Some e, n, w1)
      | (None, w1) \<Rightarrow> (None, n\<lparr>subscribers := []\<rparr>, w1))"

subsection \<open>src/unnamed/part_000\<close>

text \<open>
  The \<^verbatim>\<open>closeHandler\<close> closure of \<^verbatim>\<open>part_000\<close> (lines 56-88), over the captured
  \<^verbatim>\<open>subscriberId\<close>, \<^verbatim>\<open>responseSocket\<close> and \<^verbatim>\<open>clientIP\<close>.
\<close>

definition closeHandler_part ::
  "env \<Rightarrow> string \<Rightarrow> sock \<Rightarrow> jsval \<Rightarrow> node \<Rightarrow> world \<Rightarrow> exn option \<times> node \<times> world" where
  "closeHandler_part E subscriberId responseSocket clientIP n w =
     (case (case findIndex (\<lambda>sub. sub_id sub = subscriberId) (subscribers n) of
              None \<Rightarrow> (n, w)
            | Some i \<Rightarrow>
                (let sub = subscribers n ! i;
                     w1 = (case calls E (frame E (socket sub) ''close''
                                           ''The connection was closed by the client.'' subscriberId
                                         @ [End (socket sub)]) w of
                             (None, w') \<Rightarrow> w'
                           | (Some e, w') \<Rightarrow>
                               w' @ [LogWarn (''Error writing close event: '' @ message e)]);
                     n1 = n\<lparr>subscribers := splice1 i (subscribers n)\<rparr>
                 in (n1, w1 @ [Send \<lparr>msgid = subscriberId,
                                      payload = JObj [(''event'', JStr ''disconnect''),
                                                      (''subscribers'', JNum (int (length (subscribers n1)))),
                                                      (''ip'', clientIP)],
                                      topic = JUndefined, res = None\<rparr>]))) of
        (n1, w1) \<Rightarrow>
          (case invoke E (RemoveListener responseSocket
                            (Closure_part subscriberId responseSocket clientIP))
                  (updateNodeStatus n1 ''success'' w1) of
             (r, w2) \<Rightarrow> (r, n1, w2)))"

text \<open>\<^verbatim>\<open>registerSubscriber(RED, node, msg)\<close> of \<^verbatim>\<open>part_000\<close> (lines 33-109)\<close>

definition registerSubscriber_part :: "env \<Rightarrow> node \<Rightarrow> msg \<Rightarrow> world \<Rightarrow> exn option \<times> node \<times> world" where
  "registerSubscriber_part E n m w =
     (let w0 = w @ [LogDebug ''Client connected''] in
      case res m of
        None \<Rightarrow> (Some (TypeError ''msg.res is undefined''), n, w0)
      | Some s \<Rightarrow>
          (case calls E (openStream E m s) w0 of
             (Some e, w1) \<Rightarrow> (Some e, n, w1)
           | (None, w1) \<Rightarrow>
               (let subscriberId = msgid m;
                    clientIP = remoteAddress E s;
                    h = Closure_part subscriberId s clientIP
                in case invoke E (On s h) w1 of
                     (Some e, w2) \<Rightarrow> (Some e, n, w2)
                   | (None, w2) \<Rightarrow>
                       (let n1 = (if \<not> list_ex (\<lambda>sub. sub_id sub = subscriberId) (subscribers n)
                                  then n\<lparr>subscribers := subscribers n @
                                         [\<lparr>sub_id = subscriberId, socket = s,
                                           closeHandler = Some h\<rparr>]\<rparr>
                                  else n);
                            w3 = updateNodeStatus n1 ''success'' w2
                        in (None, n1,
                            w3 @ [Send (m\<lparr>payload :=
                                     JObj [(''event'', JStr ''connect''),
                                           (''subscribers'', JNum (int (length (subscribers n1)))),
                                           (''ip'', clientIP)]\<rparr>)])))))"

text \<open>\<^verbatim>\<open>unregisterSubscriber(node, msg)\<close> of \<^verbatim>\<open>part_000\<close> (lines 119-165)\<close>

definition unregisterSubscriber_part :: "env \<Rightarrow> node \<Rightarrow> msg \<Rightarrow> world \<Rightarrow> exn option \<times> node \<times> world" where
  "unregisterSubscriber_part E n m w =
     (case findIndex (\<lambda>sub. sub_id sub = msgid m) (subscribers n) of
        None \<Rightarrow>
          (case warn_unbound E (''Subscriber '' @ msgid m @ '' not found for unregistration'') w of
             (r, w1) \<Rightarrow> (r, n, w1))
      | Some i \<Rightarrow>
          (let sub = subscribers n ! i in
           case (case res m of
                   None \<Rightarrow>
                     warn_unbound E (''Error writing close event: '' @ ''msg.res is undefined'') w
                 | Some s \<Rightarrow>
                     (case calls E (frame E s ''close'' ''The connection was closed by the server.''
                                      (msgid m)) w of
                        (None, w1) \<Rightarrow> (None, w1)
                      | (Some e, w1) \<Rightarrow>
                          warn_unbound E (''Error writing close event: '' @ message e) w1)) of
             (Some e, w1) \<Rightarrow> (Some e, n, w1)
           | (None, w1) \<Rightarrow>
               (case (case closeHandler sub of
                        None \<Rightarrow> (None, w1)
                      | Some h \<Rightarrow>
                          (case invoke E (RemoveListener (socket sub) h) w1 of
                             (None, w2) \<Rightarrow> (None, w2)
                           | (Some e, w2) \<Rightarrow>
                               warn_unbound E (''Error removing close listener: '' @ message e) w2)) of
                  (Some e, w2) \<Rightarrow> (Some e, n, w2)
                | (None, w2) \<Rightarrow>
                    (let n1 = n\<lparr>subscribers := splice1 i (subscribers n)\<rparr> in
                     case (case res m of
                             None \<Rightarrow>
                               warn_unbound E (''Error closing response: '' @ ''msg.res is undefined'') w2
                           | Some s \<Rightarrow>
                               (case invoke E (End s) w2 of
                                  (None, w3) \<Rightarrow> (None, w3)
                                | (Some e, w3) \<Rightarrow>
                                    warn_unbound E (''Error closing response: '' @ message e) w3)) of
                       (Some e, w3) \<Rightarrow> (Some e, n1, w3)
                     | (None, w3) \<Rightarrow>
                         (case res m of
                            None \<Rightarrow> (Some (TypeError ''msg.res is undefined''), n1, w3)
                          | Some s \<Rightarrow>
                              (None, n1,
                               w3 @ [Send (m\<lparr>payload :=
                                        JObj [(''event'', JStr ''disconnect''),
                                              (''subscribers'', JNum (int (length (subscribers n1)))),
                                              (''ip'', remoteAddress E s)]\<rparr>)]))))))"

text \<open>The callback of \<^verbatim>\<open>forEach\<close> in \<^verbatim>\<open>_runtimeHandler\<close> of \<^verbatim>\<open>part_000\<close> (lines 270-287).\<close>

definition closeSubscriber_part :: "env \<Rightarrow> subscriber \<Rightarrow> world \<Rightarrow> exn option \<times> world" where
  "closeSubscriber_part E sub w =
     (case calls E ((case closeHandler sub of
                       None \<Rightarrow> []
                     | Some h \<Rightarrow> [RemoveListener (socket sub) h])
                    @ frame E (socket sub) ''close'' ''Collection closed'' ''0''
                    @ [End (socket sub)]) w of
        (None, w1) \<Rightarrow> (None, w1)
      | (Some e, w1) \<Rightarrow>
          (None, w1 @ [LogWarn (''Error closing subscriber response: '' @ message e)]))"

text \<open>\<^verbatim>\<open>_runtimeHandler\<close> of \<^verbatim>\<open>part_000\<close> (lines 268-290)\<close>

definition runtimeHandler_part :: "env \<Rightarrow> node \<Rightarrow> world \<Rightarrow> exn option \<times> node \<times> world" where
  "runtimeHandler_part E n w =
     (case forEach (closeSubscriber_part E) (subscribers n) (updateNodeStatus n ''success'' w) of
        (Some e, w1) \<Rightarrow> (Some e, n, w1)
      | (None, w1) \<Rightarrow> (None, n\<lparr>subscribers := []\<rparr>, w1))"

subsection \<open>The input handler of both files\<close>

text \<open>The file a registration is handled by.\<close>

datatype variant = Src | Part

definition registerSubscriber :: "variant \<Rightarrow> env \<Rightarrow> node \<Rightarrow> msg \<Rightarrow> world \<Rightarrow> exn option \<times> node \<times> world" where
  "registerSubscriber v = (case v of Src \<Rightarrow> registerSubscriber_src | Part \<Rightarrow> registerSubscriber_part)"

text \<open>
  \<^verbatim>\<open>this.on('input', (msg, send, done) => ...)\<close> (lines 159-172 and 223-236); \<open>done\<close>
  says whether \<^verbatim>\<open>done\<close> is a function.
\<close>

definition on_input :: "variant \<Rightarrow> env \<Rightarrow> node \<Rightarrow> msg \<Rightarrow> bool \<Rightarrow> world \<Rightarrow> node \<times> world" where
  "on_input v E n m done w =
     (case (if res m \<noteq> None then registerSubscriber v E n m w
            else handleServerEvent E n m w) of
        (r, n1, w1) \<Rightarrow>
          (let w2 = (case r of
                       None \<Rightarrow> w1
                     | Some e \<Rightarrow> updateNodeStatus n1 ''error'' (w1 @ [LogError e]))
           in (n1, if done then w2 @ [Done] else w2)))"

text \<open>Work items handled one after the other.\<close>

fun on_inputs :: "variant \<Rightarrow> env \<Rightarrow> node \<Rightarrow> msg list \<Rightarrow> world \<Rightarrow> node \<times> world" where
  "on_inputs v E n [] w = (n, w)"
| "on_inputs v E n (m # ms) w =
     (case on_input v E n m True w of (n1, w1) \<Rightarrow> on_inputs v E n1 ms w1)"

text \<open>\<^verbatim>\<open>CreateSseServerNode(config)\<close>: the node starts with no subscribers.\<close>

definition CreateSseServerNode :: "jsval \<Rightarrow> jsval \<Rightarrow> node" where
  "CreateSseServerNode config_event config_data =
     \<lparr>subscribers = [], event = config_event, data = config_data\<rparr>"

section \<open>Observations on the effects\<close>

text \<open>The response object a transport call is made on.\<close>

fun call_sock :: "call \<Rightarrow> sock" where
  "call_sock (WriteHead s c h) = s"
| "call_sock (Write s c) = s"
| "call_sock (Flush s) = s"
| "call_sock (End s) = s"
| "call_sock (On s h) = s"
| "call_sock (RemoveListener s h) = s"

text \<open>A \<^verbatim>\<open>write\<close> or \<^verbatim>\<open>flush\<close> that threw.\<close>

fun write_failed :: "effect \<Rightarrow> bool" where
  "write_failed (Called (Write s c) (Some m)) = True"
| "write_failed (Called (Flush s) (Some m)) = True"
| "write_failed _ = False"

text \<open>A call of \<^verbatim>\<open>end\<close>, whatever its outcome.\<close>

fun is_end :: "effect \<Rightarrow> bool" where
  "is_end (Called (End s) r) = True"
| "is_end _ = False"

fun on_sock :: "sock \<Rightarrow> effect \<Rightarrow> bool" where
  "on_sock s (Called c r) = (call_sock c = s)"
| "on_sock s _ = False"

text \<open>Some \<^verbatim>\<open>write\<close> or \<^verbatim>\<open>flush\<close> on the response object threw.\<close>

definition failed_on :: "world \<Rightarrow> sock \<Rightarrow> bool" where
  "failed_on w s = list_ex (\<lambda>e. write_failed e \<and> on_sock s e) w"

text \<open>The number of \<^verbatim>\<open>end\<close> calls made on the response object.\<close>

definition end_calls :: "world \<Rightarrow> sock \<Rightarrow> nat" where
  "end_calls w s = length (filter (\<lambda>e. is_end e \<and> on_sock s e) w)"

definition touches_only :: "sock \<Rightarrow> world \<Rightarrow> bool" where
  "touches_only s w = list_all (\<lambda>e. case e of Called c r \<Rightarrow> call_sock c = s | _ \<Rightarrow> True) w"

definition touched :: "world \<Rightarrow> sock set" where
  "touched w = {call_sock c | c r. Called c r \<in> set w}"

text \<open>
  Every transport call recorded in the second list has the outcome the environment gives it
  after the effects before it.
\<close>

fun obeys :: "env \<Rightarrow> world \<Rightarrow> world \<Rightarrow> bool" where
  "obeys E w [] = True"
| "obeys E w (Called c x # new) = (x = throws E w c \<and> obeys E (w @ [Called c x]) new)"
| "obeys E w (e # new) = obeys E (w @ [e]) new"

text \<open>The response objects on which the given chunk was written (or its write threw), in order.\<close>

fun served :: "string \<Rightarrow> world \<Rightarrow> sock list" where
  "served l [] = []"
| "served l (Called (Write s c) x # w) = (if c = l then s # served l w else served l w)"
| "served l (e # w) = served l w"

text \<open>The work items of a sequence whose registration returned without an exception.\<close>

fun admitted :: "variant \<Rightarrow> env \<Rightarrow> node \<Rightarrow> msg list \<Rightarrow> world \<Rightarrow> msg list" where
  "admitted v E n [] w = []"
| "admitted v E n (m # ms) w =
     (case registerSubscriber v E n m w of
        (r, n1, w1) \<Rightarrow>
          (if r = None then [m] else [])
          @ (case on_input v E n m True w of (n2, w2) \<Rightarrow> admitted v E n2 ms w2))"


text \<open>Property access \<^verbatim>\<open>v.k\<close> on a value, and the messages passed to \<^verbatim>\<open>node.send\<close>.\<close>

fun field :: "string \<Rightarrow> jsval \<Rightarrow> jsval" where
  "field k (JObj kvs) = (case map_of kvs k of Some v \<Rightarrow> v | None \<Rightarrow> JUndefined)"
| "field k _ = JUndefined"

fun sends :: "world \<Rightarrow> msg list" where
  "sends [] = []"
| "sends (Send m # w) = m # sends w"
| "sends (e # w) = sends w"


text \<open>Effects other than the completion callback and the error log.\<close>

fun plain :: "effect \<Rightarrow> bool" where
  "plain Done = False"
| "plain (LogError x) = False"
| "plain _ = True"


text \<open>
  A transport call that threw; one that threw and is not \<^verbatim>\<open>end\<close>; a warning; whether a
  call other than \<^verbatim>\<open>end\<close> threw on the response object.
\<close>

fun threw :: "effect \<Rightarrow> bool" where
  "threw (Called c (Some m)) = True"
| "threw _ = False"

fun threw_before_end :: "effect \<Rightarrow> bool" where
  "threw_before_end (Called (End s) r) = False"
| "threw_before_end (Called c (Some m)) = True"
| "threw_before_end _ = False"

fun is_warn :: "effect \<Rightarrow> bool" where
  "is_warn (LogWarn l) = True"
| "is_warn _ = False"

definition failed_before_end :: "world \<Rightarrow> sock \<Rightarrow> bool" where
  "failed_before_end w s = list_ex (\<lambda>e. threw_before_end e \<and> on_sock s e) w"

fun is_end_call :: "call \<Rightarrow> bool" where
  "is_end_call (End s) = True"
| "is_end_call _ = False"


section \<open>Concrete inputs\<close>

text \<open>
  The string conversion of the objects used below: an object with no \<^verbatim>\<open>toString\<close>
  property of its own gives \<^verbatim>\<open>[object Object]\<close>; one whose own \<^verbatim>\<open>toString\<close> is not a
  function (no value of \<open>jsval\<close> is a function) throws.
\<close>

definition conversion :: "jsval \<Rightarrow> string option" where
  "conversion v =
     (case v of
        JObj kvs \<Rightarrow> (case map_of kvs ''toString'' of None \<Rightarrow> Some ''[object Object]'' | Some x \<Rightarrow> None)
      | _ \<Rightarrow> Some [])"

text \<open>
  An environment in which every \<^verbatim>\<open>write\<close> on response object 1 throws and every other
  call returns, and one in which no call throws.
\<close>

definition env_broken1 :: env where
  "env_broken1 =
     \<lparr>throws = (\<lambda>w c. case c of Write s x \<Rightarrow> (if s = 1 then Some ''EPIPE'' else None) | _ \<Rightarrow> None),
      has_flush = (\<lambda>s. True),
      remoteAddress = (\<lambda>s. JStr ''10.0.0.7''),
      stringify = (\<lambda>v. case v of JUndefined \<Rightarrow> None | _ \<Rightarrow> Some ''{}''),
      showNum = (\<lambda>k. ''0''),
      toString = conversion,
      red_global = False\<rparr>"

definition env_ok :: env where
  "env_ok =
     \<lparr>throws = (\<lambda>w c. None),
      has_flush = (\<lambda>s. True),
      remoteAddress = (\<lambda>s. JStr ''10.0.0.7''),
      stringify = (\<lambda>v. case v of JUndefined \<Rightarrow> None | _ \<Rightarrow> Some ''{}''),
      showNum = (\<lambda>k. ''0''),
      toString = conversion,
      red_global = False\<rparr>"

definition sub_A :: subscriber where
  "sub_A = \<lparr>sub_id = ''m1'', socket = 1,
            closeHandler = Some (Closure_part ''m1'' 1 (JStr ''10.0.0.7''))\<rparr>"

definition sub_B :: subscriber where
  "sub_B = \<lparr>sub_id = ''m2'', socket = 2,
            closeHandler = Some (Closure_part ''m2'' 2 (JStr ''10.0.0.7''))\<rparr>"

definition node_AB :: node where
  "node_AB = \<lparr>subscribers = [sub_A, sub_B], event = JStr [], data = JUndefined\<rparr>"

definition msg_tick :: msg where
  "msg_tick = \<lparr>msgid = ''e1'', payload = JStr ''1'', topic = JStr ''tick'', res = None\<rparr>"

definition node0 :: node where
  "node0 = CreateSseServerNode (JStr []) JUndefined"

definition reg :: "string \<Rightarrow> sock \<Rightarrow> msg" where
  "reg i s = \<lparr>msgid = i, payload = JUndefined, topic = JUndefined, res = Some s\<rparr>"

text \<open>
  The work item as \<^verbatim>\<open>registerSubscriber\<close> of \<^verbatim>\<open>sse-server.js\<close> leaves it, captured by its
  \<^verbatim>\<open>closeHandler\<close>.
\<close>

definition captured_m1 :: msg where
  "captured_m1 = (reg ''m1'' 1)\<lparr>payload := JObj [(''event'', JStr ''connect'')]\<rparr>"

text \<open>
  A work item whose \<^verbatim>\<open>topic\<close> is the object \<^verbatim>\<open>{toString: 1}\<close>, which no template literal
  can convert to a string.
\<close>

definition msg_badtopic :: msg where
  "msg_badtopic = \<lparr>msgid = ''e2'', payload = JStr ''1'',
                    topic = JObj [(''toString'', JNum 1)], res = None\<rparr>"

section \<open>Properties\<close>

subsection \<open>Transport calls\<close>

lemma invoke_app: "invoke E c w = (r, w') \<Longrightarrow> \<exists>x. w' = w @ [Called c x] \<and> (r = None) = (x = None)"
  by (auto simp: invoke_def split: option.splits)

lemma calls_trace:
  "calls E cs w = (r, w') \<Longrightarrow>
   \<exists>k. k \<le> length cs \<and>
       w' = w @ map (\<lambda>c. Called c None) (take k cs)
              @ (case r of None \<Rightarrow> [] | Some e \<Rightarrow> [Called (cs ! k) (Some (message e))]) \<and>
       (r = None \<longrightarrow> k = length cs) \<and> (r \<noteq> None \<longrightarrow> k < length cs)"
proof (induction cs arbitrary: w)
  case Nil
  then show ?case by simp
next
  case (Cons c cs)
  show ?case
  proof (cases "throws E w c")
    case None
    with Cons.prems have "calls E cs (w @ [Called c None]) = (r, w')"
      by (simp add: invoke_def)
    from Cons.IH[OF this] obtain k where k: "k \<le> length cs"
      "w' = (w @ [Called c None]) @ map (\<lambda>c. Called c None) (take k cs)
              @ (case r of None \<Rightarrow> [] | Some e \<Rightarrow> [Called (cs ! k) (Some (message e))])"
      "r = None \<longrightarrow> k = length cs" "r \<noteq> None \<longrightarrow> k < length cs" by blast
    show ?thesis
      apply (rule exI[of _ "Suc k"])
      using k by (auto split: option.splits)
  next
    case (Some m)
    with Cons.prems have "r = Some (Error m)" "w' = w @ [Called c (Some m)]"
      by (auto simp: invoke_def)
    then show ?thesis
      by (intro exI[of _ 0]) simp
  qed
qed

lemma calls_effects:
  assumes "calls E cs w = (r, w')"
  shows "\<exists>new. w' = w @ new \<and>
           (\<forall>e\<in>set new. \<exists>c x. e = Called c x \<and> c \<in> set cs) \<and>
           (r = None \<longrightarrow> new = map (\<lambda>c. Called c None) cs)"
proof -
  from calls_trace[OF assms] obtain k where k: "k \<le> length cs"
      "w' = w @ map (\<lambda>c. Called c None) (take k cs)
              @ (case r of None \<Rightarrow> [] | Some e \<Rightarrow> [Called (cs ! k) (Some (message e))])"
      "r = None \<longrightarrow> k = length cs" "r \<noteq> None \<longrightarrow> k < length cs" by blast
  let ?new = "map (\<lambda>c. Called c None) (take k cs)
              @ (case r of None \<Rightarrow> [] | Some e \<Rightarrow> [Called (cs ! k) (Some (message e))])"
  have a: "w' = w @ ?new" using k(2) by simp
  have b: "\<forall>e\<in>set ?new. \<exists>c x. e = Called c x \<and> c \<in> set cs"
    using k(4) by (auto split: option.splits dest: in_set_takeD)
  have c: "r = None \<longrightarrow> ?new = map (\<lambda>c. Called c None) cs"
    using k(3) by simp
  from a b c show ?thesis by blast
qed

lemma invoke_effects:
  assumes "invoke E c w = (r, w')"
  obtains x where "w' = w @ [Called c x]" "(r = None) = (x = None)"
  using invoke_app[OF assms] by blast

lemma calls_first:
  assumes "calls E (c # cs) w = (r, w')"
  obtains x rest where "w' = w @ Called c x # rest"
proof -
  obtain r1 w1 where i: "invoke E c w = (r1, w1)" by fastforce
  from invoke_effects[OF i] obtain x where x: "w1 = w @ [Called c x]" by blast
  show thesis
  proof (cases r1)
    case None
    with assms i have "calls E cs w1 = (r, w')" by simp
    from calls_effects[OF this] obtain new where "w' = w1 @ new" by blast
    with x that show ?thesis by simp
  next
    case (Some e)
    with assms i have "w' = w1" by simp
    with x that show ?thesis by simp
  qed
qed

lemma obeys_append: "obeys E w (a @ b) = (obeys E w a \<and> obeys E (w @ a) b)"
  by (induction E w a rule: obeys.induct) simp_all

lemma served_append: "served l (a @ b) = served l a @ served l b"
  by (induction l a rule: served.induct) simp_all

lemma invoke_obeys:
  assumes "invoke E c w = (r, w')"
  shows "\<exists>x. w' = w @ [Called c x] \<and> obeys E w [Called c x] \<and> (r = None) = (x = None)"
  using assms by (auto simp: invoke_def split: option.splits)

lemma calls_obeys:
  "calls E cs w = (r, w') \<Longrightarrow> \<exists>new. w' = w @ new \<and> obeys E w new"
proof (induction cs arbitrary: w)
  case Nil
  then show ?case by simp
next
  case (Cons c cs)
  obtain r1 w1 where i: "invoke E c w = (r1, w1)" by fastforce
  from invoke_obeys[OF i] obtain x where x: "w1 = w @ [Called c x]" "obeys E w [Called c x]"
    by blast
  show ?case
  proof (cases r1)
    case None
    with i Cons.prems have "calls E cs w1 = (r, w')" by simp
    from Cons.IH[OF this] obtain new where n: "w' = w1 @ new" "obeys E w1 new" by blast
    have "w' = w @ ([Called c x] @ new)" using n(1) x(1) by simp
    moreover have "obeys E w ([Called c x] @ new)"
      unfolding obeys_append using x n(2) by simp
    ultimately show ?thesis by blast
  next
    case (Some e)
    with i Cons.prems have "w' = w1" by simp
    with x show ?thesis by blast
  qed
qed

subsection \<open>The broadcast pass\<close>

lemma calls_writes:
  "calls E cs w = (r, w') \<Longrightarrow> list_all (\<lambda>c. call_sock c = s \<and> (case c of Write _ _ \<Rightarrow> True | Flush _ \<Rightarrow> True | _ \<Rightarrow> False)) cs \<Longrightarrow>
   \<exists>new. w' = w @ new \<and> touches_only s new \<and>
      length (filter write_failed new) = (if r = None then 0 else 1) \<and>
      (\<forall>e\<in>set new. \<not> is_end e) \<and> failed_on new s = (r \<noteq> None)"
proof (induction cs arbitrary: w)
  case Nil
  then show ?case by (simp add: touches_only_def failed_on_def)
next
  case (Cons c cs)
  obtain r1 w1 where i: "invoke E c w = (r1, w1)" by fastforce
  from invoke_app[OF i] obtain x where x: "w1 = w @ [Called c x]" "(r1 = None) = (x = None)" by blast
  from Cons.prems(2) have c: "call_sock c = s" "(case c of Write _ _ \<Rightarrow> True | Flush _ \<Rightarrow> True | _ \<Rightarrow> False)" by auto
  show ?case
  proof (cases r1)
    case None
    with i Cons.prems have "calls E cs w1 = (r, w')" by simp
    from Cons.IH[OF this] Cons.prems(2) obtain new where n: "w' = w1 @ new" "touches_only s new"
      "length (filter write_failed new) = (if r = None then 0 else 1)" "\<forall>e\<in>set new. \<not> is_end e" "failed_on new s = (r \<noteq> None)" by auto
    from None x have xn: "x = None" by simp
    show ?thesis
      apply (rule exI[of _ "Called c x # new"])
      using n x c xn by (auto simp: touches_only_def failed_on_def split: call.splits)
  next
    case (Some e)
    with i Cons.prems have "r = Some e" "w' = w1" by auto
    moreover from Some x obtain m where "x = Some m" by auto
    ultimately show ?thesis
      apply (intro exI[of _ "[Called c x]"])
      using x c by (auto simp: touches_only_def failed_on_def split: call.splits)
  qed
qed

lemma frame_writes: "list_all (\<lambda>c. call_sock c = s \<and> (case c of Write _ _ \<Rightarrow> True | Flush _ \<Rightarrow> True | _ \<Rightarrow> False)) (frame E s ev d i)"
  by (simp add: frame_def)

lemma sendEvent_effects:
  assumes "sendEvent E ev d i sub w = (keep, w')"
  shows "\<exists>new. w' = w @ new \<and> touches_only (socket sub) new \<and>
      length (filter write_failed new) = (if keep then 0 else 1) \<and>
      length (filter is_end new) = (if keep then 0 else 1) \<and>
      failed_on new (socket sub) = (\<not> keep) \<and>
      end_calls new (socket sub) = (if keep then 0 else 1)"
proof -
  obtain r w1 where c: "calls E (frame E (socket sub) ev d i) w = (r, w1)" by fastforce
  from calls_writes[OF c frame_writes] obtain n1 where n1: "w1 = w @ n1" "touches_only (socket sub) n1"
      "length (filter write_failed n1) = (if r = None then 0 else 1)"
      "\<forall>e\<in>set n1. \<not> is_end e" "failed_on n1 (socket sub) = (r \<noteq> None)" by blast
  show ?thesis
  proof (cases r)
    case None
    with c assms have "keep" "w' = w1" by (auto simp: sendEvent_def)
    with n1 None show ?thesis by (auto simp: end_calls_def filter_empty_conv)
  next
    case (Some e)
    let ?w2 = "w1 @ [LogWarn (''Error sending event to subscriber '' @ sub_id sub @ '': '' @ message e)]"
    obtain r3 w3 where i: "invoke E (End (socket sub)) ?w2 = (r3, w3)" by fastforce
    from invoke_app[OF i] obtain x where x: "w3 = ?w2 @ [Called (End (socket sub)) x]" by blast
    from c Some i assms have k: "\<not> keep" and "w' = w3 \<or> (\<exists>l. w' = w3 @ [LogWarn l])"
      by (auto simp: sendEvent_def Let_def split: option.splits)
    then obtain tl where tl: "w' = w3 @ tl" "tl = [] \<or> (\<exists>l. tl = [LogWarn l])" by auto
    show ?thesis
      apply (rule exI[of _ "n1 @ [LogWarn (''Error sending event to subscriber '' @ sub_id sub @ '': '' @ message e), Called (End (socket sub)) x] @ tl"])
      using n1 x tl k Some by (auto simp: touches_only_def failed_on_def end_calls_def filter_empty_conv)
  qed
qed

lemma touched_append: "touched (a @ b) = touched a \<union> touched b"
  by (auto simp: touched_def)

lemma touches_only_touched: "touches_only s w \<Longrightarrow> touched w \<subseteq> {s}"
  by (auto simp: touches_only_def touched_def list_all_iff split: effect.splits)

lemma failed_on_append: "failed_on (a @ b) s = (failed_on a s \<or> failed_on b s)"
  by (auto simp: failed_on_def list_ex_iff)

lemma end_calls_append: "end_calls (a @ b) s = end_calls a s + end_calls b s"
  by (simp add: end_calls_def)

lemma on_sock_touched: "e \<in> set w \<Longrightarrow> on_sock s e \<Longrightarrow> s \<in> touched w"
  by (cases e) (auto simp: touched_def)

lemma untouched_failed_on: "s \<notin> touched w \<Longrightarrow> \<not> failed_on w s"
  by (auto simp: failed_on_def list_ex_iff dest: on_sock_touched)

lemma untouched_end_calls: "s \<notin> touched w \<Longrightarrow> end_calls w s = 0"
  by (auto simp: end_calls_def filter_empty_conv dest: on_sock_touched)

lemma sendEvent_unfold:
  "sendEvent E ev d i sub w = (keep, w') \<Longrightarrow>
   calls E (frame E (socket sub) ev d i) w = (r, w1) \<Longrightarrow>
   (r = None \<and> keep \<and> w' = w1) \<or>
   (\<exists>l y tl. r \<noteq> None \<and> \<not> keep \<and> w' = w1 @ [LogWarn l, Called (End (socket sub)) y] @ tl \<and>
       (tl = [] \<or> (\<exists>l'. tl = [LogWarn l'])) \<and>
       obeys E w1 ([LogWarn l, Called (End (socket sub)) y] @ tl))"
  by (auto simp: sendEvent_def Let_def invoke_def split: option.splits)

lemma frame_sock: "c \<in> set (frame E s ev d i) \<Longrightarrow> call_sock c = s"
  by (auto simp: frame_def split: if_splits)

lemma frame_length: "length (frame E s ev d i) = (if has_flush E s then 4 else 3)"
  by (simp add: frame_def)

lemma proj_calls:
  "\<forall>c\<in>set cs. call_sock c = s \<Longrightarrow>
   filter (on_sock s) (map (\<lambda>c. Called c x) cs) = map (\<lambda>c. Called c x) cs"
  by (induction cs) simp_all

lemma untouched_proj: "s \<notin> touched w \<Longrightarrow> filter (on_sock s) w = []"
  by (auto simp: filter_empty_conv dest: on_sock_touched)

lemma frame_served_all:
  "served (''event: '' @ ev @ LF) (map (\<lambda>c. Called c None) (frame E s ev d i)) = [s]"
  by (simp add: frame_def)

lemma frame_served_prefix:
  assumes "k < length (frame E s ev d i)"
  shows "served (''event: '' @ ev @ LF)
           (map (\<lambda>c. Called c None) (take k (frame E s ev d i)) @ [Called (frame E s ev d i ! k) x])
         = [s]"
proof -
  from assms have "k = 0 \<or> k = 1 \<or> k = 2 \<or> k = 3"
    unfolding frame_length by (auto split: if_splits)
  then show ?thesis
    using assms unfolding frame_length
    by (elim disjE) (simp_all add: frame_def served_append split: if_splits)
qed

lemma sendEvent_segment:
  assumes "sendEvent E ev d i sub w = (keep, w')"
    and "s = socket sub" and "fr = frame E s ev d i" and "l1 = ''event: '' @ ev @ LF"
  shows "\<exists>new. w' = w @ new \<and> obeys E w new \<and> served l1 new = [s] \<and>
           (if keep then filter (on_sock s) new = map (\<lambda>c. Called c None) fr
            else \<exists>k e x. k < length fr \<and>
                   filter (on_sock s) new =
                     map (\<lambda>c. Called c None) (take k fr) @ [Called (fr ! k) (Some e), Called (End s) x])"
proof -
  obtain r w1 where c: "calls E fr w = (r, w1)" by fastforce
  from calls_trace[OF c] obtain k where k: "k \<le> length fr"
    "w1 = w @ map (\<lambda>c. Called c None) (take k fr)
             @ (case r of None \<Rightarrow> [] | Some e \<Rightarrow> [Called (fr ! k) (Some (message e))])"
    "r = None \<longrightarrow> k = length fr" "r \<noteq> None \<longrightarrow> k < length fr" by blast
  from calls_obeys[OF c] obtain p where p: "w1 = w @ p" "obeys E w p" by blast
  have fs: "\<forall>c\<in>set fr. call_sock c = s" unfolding assms(3) by (auto dest: frame_sock)
  then have ts: "\<forall>c\<in>set (take k fr). call_sock c = s" by (auto dest: in_set_takeD)
  from sendEvent_unfold[OF assms(1) c[unfolded assms(3) assms(2)]]
  consider (ok) "r = None" "keep" "w' = w1"
    | (bad) l y tl where "r \<noteq> None" "\<not> keep" "w' = w1 @ [LogWarn l, Called (End s) y] @ tl"
        "tl = [] \<or> (\<exists>l'. tl = [LogWarn l'])" "obeys E w1 ([LogWarn l, Called (End s) y] @ tl)"
    unfolding assms(2) by blast
  then show ?thesis
  proof cases
    case ok
    with k have pk: "w1 = w @ map (\<lambda>c. Called c None) fr" by simp
    with p(1) have pe: "p = map (\<lambda>c. Called c None) fr" by simp
    have "served l1 p = [s]" unfolding pe assms(3) assms(4) by (rule frame_served_all)
    moreover have "filter (on_sock s) p = map (\<lambda>c. Called c None) fr"
      unfolding pe using fs by (rule proj_calls)
    ultimately show ?thesis using ok p by auto
  next
    case bad
    then obtain e where e: "r = Some e" by auto
    with k have kl: "k < length fr" and
      pk: "w1 = w @ (map (\<lambda>c. Called c None) (take k fr) @ [Called (fr ! k) (Some (message e))])"
      by simp_all
    with p(1) have pe: "p = map (\<lambda>c. Called c None) (take k fr) @ [Called (fr ! k) (Some (message e))]"
      by simp
    define q where "q = [LogWarn l, Called (End s) y] @ tl"
    have sp: "served l1 p = [s]"
      unfolding pe assms(3) assms(4) using kl[unfolded assms(3)] by (rule frame_served_prefix)
    have sq: "served l1 q = []" using bad(4) by (auto simp: q_def)
    have fk: "call_sock (fr ! k) = s" using fs kl by simp
    have pp: "filter (on_sock s) p
              = map (\<lambda>c. Called c None) (take k fr) @ [Called (fr ! k) (Some (message e))]"
      unfolding pe using proj_calls[OF ts] fk by simp
    have pq: "filter (on_sock s) q = [Called (End s) y]" using bad(4) by (auto simp: q_def)
    have "w' = w @ (p @ q)" using bad(3) p(1) by (simp add: q_def)
    moreover have "obeys E w (p @ q)"
    proof -
      from bad(5) have "obeys E w1 q" unfolding q_def .
      with p show ?thesis unfolding obeys_append by simp
    qed
    moreover have "served l1 (p @ q) = [s]" using sp sq by (simp add: served_append)
    moreover have "filter (on_sock s) (p @ q)
        = map (\<lambda>c. Called c None) (take k fr) @ [Called (fr ! k) (Some (message e)), Called (End s) y]"
      using pp pq by simp
    ultimately show ?thesis using bad(2) kl by auto
  qed
qed

lemma filter_subscribers_pass:
  "filter_subscribers (sendEvent E ev d i) subs w = (kept, w') \<Longrightarrow> l1 = ''event: '' @ ev @ LF \<Longrightarrow>
   \<exists>new. w' = w @ new \<and> obeys E w new \<and> served l1 new = map socket subs \<and> subseq kept subs \<and>
     length kept + length (filter write_failed new) = length subs \<and>
     length (filter is_end new) = length (filter write_failed new) \<and>
     touched new \<subseteq> socket ` set subs \<and>
     (distinct (map socket subs) \<longrightarrow>
        kept = filter (\<lambda>sub. \<not> failed_on new (socket sub)) subs \<and>
        (\<forall>sub\<in>set subs.
           end_calls new (socket sub) = (if failed_on new (socket sub) then 1 else 0) \<and>
           (if failed_on new (socket sub)
            then \<exists>k e x. k < length (frame E (socket sub) ev d i) \<and>
                   filter (on_sock (socket sub)) new =
                     map (\<lambda>c. Called c None) (take k (frame E (socket sub) ev d i))
                     @ [Called (frame E (socket sub) ev d i ! k) (Some e), Called (End (socket sub)) x]
            else filter (on_sock (socket sub)) new
                   = map (\<lambda>c. Called c None) (frame E (socket sub) ev d i))))"
proof (induction subs arbitrary: w kept w')
  case Nil
  then show ?case by (simp add: touched_def)
next
  case (Cons sub subs)
  define P where "P = (\<lambda>(s :: sock) (new :: world) (b :: bool).
           if b
            then \<exists>k e x. k < length (frame E s ev d i) \<and>
                   filter (on_sock s) new =
                     map (\<lambda>c. Called c None) (take k (frame E s ev d i))
                     @ [Called (frame E s ev d i ! k) (Some e), Called (End s) x]
            else filter (on_sock s) new = map (\<lambda>c. Called c None) (frame E s ev d i))"
  obtain keep w1 where s: "sendEvent E ev d i sub w = (keep, w1)" by fastforce
  obtain kept1 w2 where f: "filter_subscribers (sendEvent E ev d i) subs w1 = (kept1, w2)" by fastforce
  from Cons.prems(1) s f have res: "kept = (if keep then sub # kept1 else kept1)" "w' = w2" by auto
  from sendEvent_effects[OF s] obtain n1 where n1: "w1 = w @ n1" "touches_only (socket sub) n1"
      "length (filter write_failed n1) = (if keep then 0 else 1)"
      "length (filter is_end n1) = (if keep then 0 else 1)"
      "failed_on n1 (socket sub) = (\<not> keep)"
      "end_calls n1 (socket sub) = (if keep then 0 else 1)" by blast
  have "\<exists>new. w1 = w @ new \<and> obeys E w new \<and> served l1 new = [socket sub] \<and>
          P (socket sub) new (\<not> keep)"
    using sendEvent_segment[OF s refl refl Cons.prems(2)] unfolding P_def
    by (cases keep) simp_all
  then obtain n1' where n1':
    "w1 = w @ n1'" "obeys E w n1'" "served l1 n1' = [socket sub]" "P (socket sub) n1' (\<not> keep)"
    by blast
  from n1(1) n1'(1) have same: "n1' = n1" by simp
  note sg = n1'(2-4)[unfolded same]
  from Cons.IH[OF f Cons.prems(2)] obtain n2 where n2: "w2 = w1 @ n2" "obeys E w1 n2"
     "served l1 n2 = map socket subs" "subseq kept1 subs"
     "length kept1 + length (filter write_failed n2) = length subs"
     "length (filter is_end n2) = length (filter write_failed n2)"
     "touched n2 \<subseteq> socket ` set subs"
     "distinct (map socket subs) \<longrightarrow>
        kept1 = filter (\<lambda>sub. \<not> failed_on n2 (socket sub)) subs \<and>
        (\<forall>sub\<in>set subs. end_calls n2 (socket sub) = (if failed_on n2 (socket sub) then 1 else 0) \<and>
            P (socket sub) n2 (failed_on n2 (socket sub)))"
    unfolding P_def by blast
  have t1: "touched n1 \<subseteq> {socket sub}" using n1(2) by (rule touches_only_touched)
  have a: "w' = w @ (n1 @ n2)" using res n1 n2 by simp
  have ob: "obeys E w (n1 @ n2)" unfolding obeys_append using sg(1) n2(2) n1(1) by simp
  have sv: "served l1 (n1 @ n2) = map socket (sub # subs)"
    using sg(2) n2(3) by (simp add: served_append)
  have b: "subseq kept (sub # subs)" using res n2(4) by auto
  have c: "length kept + length (filter write_failed (n1 @ n2)) = length (sub # subs)"
    using res n1(3) n2(5) by auto
  have d: "length (filter is_end (n1 @ n2)) = length (filter write_failed (n1 @ n2))"
    using n1(3,4) n2(6) by auto
  have e: "touched (n1 @ n2) \<subseteq> socket ` set (sub # subs)"
    using t1 n2(7) by (auto simp: touched_append)
  have g: "kept = filter (\<lambda>sub. \<not> failed_on (n1 @ n2) (socket sub)) (sub # subs) \<and>
        (\<forall>x\<in>set (sub # subs).
           end_calls (n1 @ n2) (socket x) = (if failed_on (n1 @ n2) (socket x) then 1 else 0) \<and>
           P (socket x) (n1 @ n2) (failed_on (n1 @ n2) (socket x)))"
    if dist: "distinct (map socket (sub # subs))"
  proof -
    from dist have ds: "distinct (map socket subs)" and ni: "socket sub \<notin> socket ` set subs" by auto
    from ni n2(7) have u2: "socket sub \<notin> touched n2" by auto
    have u1: "socket x \<notin> touched n1" if "x \<in> set subs" for x
    proof
      assume "socket x \<in> touched n1"
      with t1 have "socket x = socket sub" by blast
      with that ni show False by (metis imageI)
    qed
    have f1: "failed_on (n1 @ n2) (socket sub) = (\<not> keep)"
      using n1(5) untouched_failed_on[OF u2] by (simp add: failed_on_append)
    have e1: "end_calls (n1 @ n2) (socket sub) = (if keep then 0 else 1)"
      using n1(6) untouched_end_calls[OF u2] by (simp add: end_calls_append)
    have p1: "filter (on_sock (socket sub)) (n1 @ n2) = filter (on_sock (socket sub)) n1"
      using untouched_proj[OF u2] by simp
    have P1: "P (socket sub) (n1 @ n2) (failed_on (n1 @ n2) (socket sub))"
      using sg(3) unfolding f1 P_def p1 .
    have f2: "failed_on (n1 @ n2) (socket x) = failed_on n2 (socket x)" if "x \<in> set subs" for x
      using untouched_failed_on[OF u1[OF that]] by (simp add: failed_on_append)
    have e2: "end_calls (n1 @ n2) (socket x) = end_calls n2 (socket x)" if "x \<in> set subs" for x
      using untouched_end_calls[OF u1[OF that]] by (simp add: end_calls_append)
    have p2: "filter (on_sock (socket x)) (n1 @ n2) = filter (on_sock (socket x)) n2"
      if "x \<in> set subs" for x
      using untouched_proj[OF u1[OF that]] by simp
    have P2: "P (socket x) (n1 @ n2) (failed_on (n1 @ n2) (socket x))" if "x \<in> set subs" for x
    proof -
      from n2(8) ds that have "P (socket x) n2 (failed_on n2 (socket x))" by blast
      then show ?thesis unfolding f2[OF that] P_def p2[OF that] .
    qed
    have k1: "kept1 = filter (\<lambda>sub. \<not> failed_on (n1 @ n2) (socket sub)) subs"
      using n2(8) ds f2 by (metis (mono_tags, lifting) filter_cong)
    show ?thesis using res f1 e1 k1 n2(8) ds f2 e2 P1 P2 by auto
  qed
  show ?case
    apply (rule exI[of _ "n1 @ n2"])
    using a ob sv b c d e g[unfolded P_def] by blast
qed

text \<open>
  \<^verbatim>\<open>handleServerEvent\<close> either throws at the event name, with no effect, or logs the
  resolved name and payload and runs the pass.
\<close>

lemma handleServerEvent_cases:
  assumes "handleServerEvent E n m w = (r, n', w')"
    and "name = js_or (event n) (js_or (topic m) (JStr ''message''))"
    and "d = serialized E (js_or (data n) (payload m))"
  shows "(template E name = None \<and> r = Some (TypeError ''Cannot convert object to primitive value'')
            \<and> n' = n \<and> w' = w) \<or>
         (\<exists>ev kept. template E name = Some ev \<and> r = None \<and> n' = n\<lparr>subscribers := kept\<rparr> \<and>
            event n' = event n \<and> data n' = data n \<and>
            filter_subscribers (sendEvent E ev d (msgid m)) (subscribers n)
              (w @ [LogDebug (''Sent event: '' @ ev), LogDebug (''Data: '' @ d)]) = (kept, w'))"
  using assms
  by (auto simp: handleServerEvent_def Let_def split: option.splits prod.splits)

text \<open>
  C1 (broadcast reconciliation). When the event name cannot be converted to a string the
  function throws and there is no pass: no effect, the registry as it was. Otherwise the pass
  only appends effects, every transport call in them has the outcome the environment gives
  it, and the \<^verbatim>\<open>event:\<close> line is written (or its write throws) on the response object of
  every subscriber of the registry, in the order of the registry. The registry after the pass
  is a subsequence of the registry before it, its size plus the number of frame writes that
  threw is \<open>N\<close>, and as many \<^verbatim>\<open>end\<close> calls were made as frame writes threw, whatever
  the \<^verbatim>\<open>end\<close> calls did. When no two subscribers share a response object, the registry
  after the pass is exactly the subscribers on whose response object no \<^verbatim>\<open>write\<close> or
  \<^verbatim>\<open>flush\<close> threw, in their original order; on the response object of each of them the
  calls of the pass are the whole frame (three writes and the flush if there is one), each
  of which returned; on that of each other subscriber they are the calls of the frame up to
  the first that threw, then one call of \<^verbatim>\<open>end\<close>.
\<close>

theorem broadcast_reconciliation:
  assumes "handleServerEvent E n m w = (r, n', w')"
  shows "case template E (js_or (event n) (js_or (topic m) (JStr ''message''))) of
           None \<Rightarrow> r \<noteq> None \<and> n' = n \<and> w' = w
         | Some ev \<Rightarrow>
             r = None \<and>
             (\<exists>new. w' = w @ new \<and> obeys E w new \<and>
                served (''event: '' @ ev @ LF) new = map socket (subscribers n) \<and>
                subseq (subscribers n') (subscribers n) \<and>
                length (subscribers n') + length (filter write_failed new)
                  = length (subscribers n) \<and>
                length (filter is_end new) = length (filter write_failed new) \<and>
                (distinct (map socket (subscribers n)) \<longrightarrow>
                   subscribers n' = filter (\<lambda>sub. \<not> failed_on new (socket sub)) (subscribers n) \<and>
                   (\<forall>sub\<in>set (subscribers n).
                      end_calls new (socket sub) = (if failed_on new (socket sub) then 1 else 0) \<and>
                      (if failed_on new (socket sub)
                       then \<exists>k e x.
                              k < length (frame E (socket sub) ev
                                            (serialized E (js_or (data n) (payload m))) (msgid m)) \<and>
                              filter (on_sock (socket sub)) new =
                                map (\<lambda>c. Called c None)
                                  (take k (frame E (socket sub) ev
                                             (serialized E (js_or (data n) (payload m))) (msgid m)))
                                @ [Called (frame E (socket sub) ev
                                             (serialized E (js_or (data n) (payload m))) (msgid m) ! k)
                                     (Some e),
                                   Called (End (socket sub)) x]
                       else filter (on_sock (socket sub)) new =
                              map (\<lambda>c. Called c None)
                                (frame E (socket sub) ev
                                   (serialized E (js_or (data n) (payload m))) (msgid m))))))"
proof -
  define name where "name = js_or (event n) (js_or (topic m) (JStr ''message''))"
  define d where "d = serialized E (js_or (data n) (payload m))"
  from handleServerEvent_cases[OF assms name_def d_def]
  consider (throw) "template E name = None" "r \<noteq> None" "n' = n" "w' = w"
    | (pass) ev kept where "template E name = Some ev" "r = None" "n' = n\<lparr>subscribers := kept\<rparr>"
        "filter_subscribers (sendEvent E ev d (msgid m)) (subscribers n)
              (w @ [LogDebug (''Sent event: '' @ ev), LogDebug (''Data: '' @ d)]) = (kept, w')"
    by auto
  then show ?thesis
  proof cases
    case throw
    then show ?thesis unfolding name_def[symmetric] by simp
  next
    case pass
    define pre where "pre = [LogDebug (''Sent event: '' @ ev), LogDebug (''Data: '' @ d)]"
    define l1 where "l1 = ''event: '' @ ev @ LF"
    note f = pass(4)[folded pre_def]
    from filter_subscribers_pass[OF f l1_def] obtain new where new:
      "w' = (w @ pre) @ new" "obeys E (w @ pre) new" "served l1 new = map socket (subscribers n)"
      "subseq kept (subscribers n)"
      "length kept + length (filter write_failed new) = length (subscribers n)"
      "length (filter is_end new) = length (filter write_failed new)"
      "distinct (map socket (subscribers n)) \<longrightarrow>
        kept = filter (\<lambda>sub. \<not> failed_on new (socket sub)) (subscribers n) \<and>
        (\<forall>sub\<in>set (subscribers n).
           end_calls new (socket sub) = (if failed_on new (socket sub) then 1 else 0) \<and>
           (if failed_on new (socket sub)
            then \<exists>k e x. k < length (frame E (socket sub) ev d (msgid m)) \<and>
                   filter (on_sock (socket sub)) new =
                     map (\<lambda>c. Called c None) (take k (frame E (socket sub) ev d (msgid m)))
                     @ [Called (frame E (socket sub) ev d (msgid m) ! k) (Some e),
                        Called (End (socket sub)) x]
            else filter (on_sock (socket sub)) new
                   = map (\<lambda>c. Called c None) (frame E (socket sub) ev d (msgid m))))"
      by blast
    have q: "filter write_failed pre = []" "filter is_end pre = []"
      "\<not> failed_on pre s" "end_calls pre s = 0" "filter (on_sock s) pre = []"
      "served l1 pre = []" "obeys E w pre" for s
      by (simp_all add: pre_def failed_on_def end_calls_def)
    have k: "subscribers n' = kept" using pass(3) by simp
    have "\<exists>new. w' = w @ new \<and> obeys E w new \<and>
                served l1 new = map socket (subscribers n) \<and>
                subseq (subscribers n') (subscribers n) \<and>
                length (subscribers n') + length (filter write_failed new)
                  = length (subscribers n) \<and>
                length (filter is_end new) = length (filter write_failed new) \<and>
                (distinct (map socket (subscribers n)) \<longrightarrow>
                   subscribers n' = filter (\<lambda>sub. \<not> failed_on new (socket sub)) (subscribers n) \<and>
                   (\<forall>sub\<in>set (subscribers n).
                      end_calls new (socket sub) = (if failed_on new (socket sub) then 1 else 0) \<and>
                      (if failed_on new (socket sub)
                       then \<exists>k e x. k < length (frame E (socket sub) ev d (msgid m)) \<and>
                              filter (on_sock (socket sub)) new =
                                map (\<lambda>c. Called c None) (take k (frame E (socket sub) ev d (msgid m)))
                                @ [Called (frame E (socket sub) ev d (msgid m) ! k) (Some e),
                                   Called (End (socket sub)) x]
                       else filter (on_sock (socket sub)) new =
                              map (\<lambda>c. Called c None) (frame E (socket sub) ev d (msgid m)))))"
    proof -
      have r: "failed_on (pre @ new) s = failed_on new s"
        "end_calls (pre @ new) s = end_calls new s"
        "filter (on_sock s) (pre @ new) = filter (on_sock s) new"
        "filter write_failed (pre @ new) = filter write_failed new"
        "filter is_end (pre @ new) = filter is_end new"
        "served l1 (pre @ new) = served l1 new"
        "obeys E w (pre @ new) = obeys E (w @ pre) new" for s
        by (simp_all add: q failed_on_append end_calls_append served_append obeys_append)
      show ?thesis
        apply (rule exI[of _ "pre @ new"])
        using new unfolding r k append_assoc by blast
    qed
    with pass(1,2) show ?thesis
      unfolding name_def[symmetric] d_def[symmetric] l1_def by simp
  qed
qed

theorem broadcast_reconciliation_witness:
  "distinct (map socket (subscribers node_AB)) \<and>
   template env_broken1 (js_or (event node_AB) (js_or (topic msg_tick) (JStr ''message'')))
     = Some ''tick'' \<and>
   (\<exists>n' w'. handleServerEvent env_broken1 node_AB msg_tick [] = (None, n', w') \<and>
      subscribers n' = [sub_B] \<and> end_calls w' 1 = 1 \<and> end_calls w' 2 = 0 \<and>
      failed_on w' 1 \<and> \<not> failed_on w' 2 \<and>
      served (''event: tick'' @ LF) w' = [1, 2] \<and>
      filter (on_sock 2) w'
        = map (\<lambda>c. Called c None)
            (frame env_broken1 2 ''tick''
               (serialized env_broken1 (js_or (data node_AB) (payload msg_tick))) (msgid msg_tick)))"
proof -
  obtain r n' w' where eq: "handleServerEvent env_broken1 node_AB msg_tick [] = (r, n', w')"
    by (metis prod_cases3)
  have d: "distinct (map socket (subscribers node_AB))"
    by (simp add: node_AB_def sub_A_def sub_B_def)
  have t: "template env_broken1 (js_or (event node_AB) (js_or (topic msg_tick) (JStr ''message'')))
     = Some ''tick''"
    by code_simp
  have w: "w' = snd (snd (handleServerEvent env_broken1 node_AB msg_tick []))"
    using eq by simp
  have f: "failed_on w' 1" "\<not> failed_on w' 2"
    unfolding w by code_simp+
  have s: "socket sub_A = 1" "socket sub_B = 2" "subscribers node_AB = [sub_A, sub_B]"
    by (simp_all add: sub_A_def sub_B_def node_AB_def)
  from broadcast_reconciliation[OF eq] obtain new where r: "r = None" and
    n: "w' = [] @ new" and sv: "served (''event: '' @ ''tick'' @ LF) new = map socket (subscribers node_AB)" and
    k: "distinct (map socket (subscribers node_AB)) \<longrightarrow>
          subscribers n' = filter (\<lambda>sub. \<not> failed_on new (socket sub)) (subscribers node_AB) \<and>
          (\<forall>sub\<in>set (subscribers node_AB).
             end_calls new (socket sub) = (if failed_on new (socket sub) then 1 else 0) \<and>
             (if failed_on new (socket sub)
                       then \<exists>k e x.
                              k < length (frame env_broken1 (socket sub) ''tick''
                                            (serialized env_broken1 (js_or (data node_AB) (payload msg_tick))) (msgid msg_tick)) \<and>
                              filter (on_sock (socket sub)) new =
                                map (\<lambda>c. Called c None)
                                  (take k (frame env_broken1 (socket sub) ''tick''
                                             (serialized env_broken1 (js_or (data node_AB) (payload msg_tick))) (msgid msg_tick)))
                                @ [Called (frame env_broken1 (socket sub) ''tick''
                                             (serialized env_broken1 (js_or (data node_AB) (payload msg_tick))) (msgid msg_tick) ! k)
                                     (Some e),
                                   Called (End (socket sub)) x]
                       else filter (on_sock (socket sub)) new =
                              map (\<lambda>c. Called c None)
                                (frame env_broken1 (socket sub) ''tick''
                                   (serialized env_broken1 (js_or (data node_AB) (payload msg_tick))) (msgid msg_tick))))"
    unfolding t by auto
  from n have nw: "new = w'" by simp
  from k d f have a: "subscribers n' = [sub_B]" "end_calls w' 1 = 1" "end_calls w' 2 = 0"
    "filter (on_sock 2) w'
        = map (\<lambda>c. Called c None)
            (frame env_broken1 2 ''tick''
               (serialized env_broken1 (js_or (data node_AB) (payload msg_tick))) (msgid msg_tick))"
    by (simp_all add: nw s)
  from sv have b: "served (''event: tick'' @ LF) w' = [1, 2]" by (simp add: nw s)
  from a b d t f r eq show ?thesis by blast
qed

subsection \<open>Admission\<close>

lemma registerSubscriber_ids:
  "registerSubscriber v E n m w = (r, n1, w1) \<Longrightarrow>
   map sub_id (subscribers n1) =
     (if r = None \<and> msgid m \<notin> set (map sub_id (subscribers n))
      then map sub_id (subscribers n) @ [msgid m] else map sub_id (subscribers n))"
  apply (cases v)
   apply (auto simp: registerSubscriber_def registerSubscriber_src_def registerSubscriber_part_def
      Let_def list_ex_iff split: option.splits prod.splits if_splits)
   apply (metis imageI)+
  done

lemma registerSubscriber_dup:
  "list_ex (\<lambda>sub. sub_id sub = msgid m) (subscribers n) \<Longrightarrow>
   fst (snd (registerSubscriber v E n m w)) = n"
  by (cases v)
     (auto simp: registerSubscriber_def registerSubscriber_src_def registerSubscriber_part_def
        Let_def split: option.splits prod.splits if_splits)

lemma on_input_register:
  "res m \<noteq> None \<Longrightarrow> fst (on_input v E n m dn w) = fst (snd (registerSubscriber v E n m w))"
  by (auto simp: on_input_def Let_def split: prod.splits)

lemma on_inputs_ids:
  "\<forall>m\<in>set ms. res m \<noteq> None \<Longrightarrow> distinct (map sub_id (subscribers n)) \<Longrightarrow>
   on_inputs v E n ms w = (n', w') \<Longrightarrow>
   distinct (map sub_id (subscribers n')) \<and>
   set (map sub_id (subscribers n')) = set (map sub_id (subscribers n)) \<union> msgid ` set (admitted v E n ms w)"
proof (induction ms arbitrary: n w)
  case Nil
  then show ?case by simp
next
  case (Cons m ms)
  obtain r n1 w1 where reg: "registerSubscriber v E n m w = (r, n1, w1)"
    by (metis prod_cases3)
  obtain n2 w2 where inp: "on_input v E n m True w = (n2, w2)" by fastforce
  from Cons.prems(1) have rm: "res m \<noteq> None" by simp
  from on_input_register[OF rm, of v E n True w] reg inp have n2: "n2 = n1" by simp
  note ids = registerSubscriber_ids[OF reg]
  from ids Cons.prems(2) have d1: "distinct (map sub_id (subscribers n1))"
    by (auto split: if_splits)
  from Cons.prems(3) inp n2 have rest: "on_inputs v E n1 ms w2 = (n', w')" by simp
  from Cons.prems(1) have "\<forall>m\<in>set ms. res m \<noteq> None" by simp
  from Cons.IH[OF this d1 rest] have ih: "distinct (map sub_id (subscribers n'))"
    "set (map sub_id (subscribers n')) = set (map sub_id (subscribers n1)) \<union> msgid ` set (admitted v E n1 ms w2)"
    by auto
  have adm: "admitted v E n (m # ms) w = (if r = None then [m] else []) @ admitted v E n1 ms w2"
    using reg inp n2 by simp
  show ?case using ih ids unfolding adm by (auto split: if_splits)
qed

text \<open>
  C2 (idempotent admission), for both files. Registering a work item whose id is already
  in the registry leaves the node as it is. After any sequence of registration work items,
  handled from a registry without duplicate ids, the registry has no duplicate ids and its
  size is the number of distinct ids among the ids it started with and the ids of the work
  items whose registration returned.
\<close>

theorem idempotent_admission:
  assumes "\<forall>m\<in>set ms. res m \<noteq> None"
    and "distinct (map sub_id (subscribers n))"
    and "on_inputs v E n ms w = (n', w')"
  shows "(\<forall>m0 w0. list_ex (\<lambda>sub. sub_id sub = msgid m0) (subscribers n) \<longrightarrow>
            fst (snd (registerSubscriber v E n m0 w0)) = n) \<and>
         distinct (map sub_id (subscribers n')) \<and>
         length (subscribers n') =
           card (set (map sub_id (subscribers n)) \<union> msgid ` set (admitted v E n ms w))"
proof -
  from on_inputs_ids[OF assms] have d: "distinct (map sub_id (subscribers n'))"
    and s: "set (map sub_id (subscribers n')) =
            set (map sub_id (subscribers n)) \<union> msgid ` set (admitted v E n ms w)"
    by blast+
  from d have "length (subscribers n') = card (set (map sub_id (subscribers n')))"
    by (metis distinct_card length_map)
  with s d show ?thesis by (simp add: registerSubscriber_dup)
qed

theorem idempotent_admission_witness:
  "list_all (\<lambda>m. res m \<noteq> None) [reg ''m1'' 3, reg ''m3'' 4, reg ''m3'' 5] \<and>
   distinct (map sub_id (subscribers node_AB)) \<and>
   list_ex (\<lambda>sub. sub_id sub = msgid (reg ''m1'' 3)) (subscribers node_AB) \<and>
   fst (snd (registerSubscriber Part env_ok node_AB (reg ''m1'' 3) [])) = node_AB \<and>
   map msgid (admitted Part env_ok node_AB [reg ''m1'' 3, reg ''m3'' 4, reg ''m3'' 5] [])
     = [''m1'', ''m3'', ''m3''] \<and>
   length (subscribers (fst (on_inputs Part env_ok node_AB [reg ''m1'' 3, reg ''m3'' 4, reg ''m3'' 5] [])))
     = 3"
proof -
  let ?ms = "[reg ''m1'' 3, reg ''m3'' 4, reg ''m3'' 5]"
  have h1: "\<forall>m\<in>set ?ms. res m \<noteq> None" by (simp add: reg_def)
  have h2: "distinct (map sub_id (subscribers node_AB))"
    by (simp add: node_AB_def sub_A_def sub_B_def)
  have dup: "list_ex (\<lambda>sub. sub_id sub = msgid (reg ''m1'' 3)) (subscribers node_AB)"
    by (simp add: node_AB_def sub_A_def reg_def)
  obtain n' w' where eq: "on_inputs Part env_ok node_AB ?ms [] = (n', w')" by fastforce
  note th = idempotent_admission[OF h1 h2 eq]
  from th dup have same: "fst (snd (registerSubscriber Part env_ok node_AB (reg ''m1'' 3) [])) = node_AB"
    by blast
  have a: "map msgid (admitted Part env_ok node_AB ?ms []) = [''m1'', ''m3'', ''m3'']"
    by code_simp
  have img: "msgid ` set (admitted Part env_ok node_AB ?ms []) =
             set (map msgid (admitted Part env_ok node_AB ?ms []))"
    by (simp only: set_map)
  have c: "card (set (map sub_id (subscribers node_AB)) \<union> msgid ` set (admitted Part env_ok node_AB ?ms [])) = 3"
    unfolding img a by (simp add: node_AB_def sub_A_def sub_B_def card_insert_if)
  from th c have "length (subscribers n') = 3" by simp
  with h1 h2 dup same a eq show ?thesis by (simp add: reg_def)
qed

subsection \<open>Event name and payload of a broadcast\<close>

lemma frame_first: "c1 = Write s (''event: '' @ ev @ LF) \<Longrightarrow> \<exists>cs. frame E s ev d i = c1 # cs"
  by (simp add: frame_def)

lemma sendEvent_calls:
  assumes "sendEvent E ev d i sub w = (keep, w')"
    and "c1 = Write (socket sub) (''event: '' @ ev @ LF)"
  shows "\<exists>x rest. w' = w @ Called c1 x # rest \<and>
           (\<forall>c y. Called c y \<in> set rest \<longrightarrow> c \<in> set (frame E (socket sub) ev d i) \<or> c = End (socket sub))"
proof -
  define s where "s = socket sub"
  define fr where "fr = frame E s ev d i"
  obtain r w1 where c: "calls E fr w = (r, w1)" by fastforce
  from frame_first[OF assms(2)[folded s_def], of E d i] obtain cs where frc: "fr = c1 # cs"
    unfolding fr_def by (rule exE)
  from c[unfolded frc] obtain x rest where x: "w1 = w @ Called c1 x # rest" by (rule calls_first)
  from calls_effects[OF c] obtain new where new: "w1 = w @ new"
    "\<forall>e\<in>set new. \<exists>c x. e = Called c x \<and> c \<in> set fr" by blast
  from x new(1) have nr: "new = Called c1 x # rest" by simp
  with new(2) have rest: "\<forall>c y. Called c y \<in> set rest \<longrightarrow> c \<in> set fr" by auto
  from sendEvent_unfold[OF assms(1) c[unfolded fr_def s_def]]
  consider "w' = w1" | l y tl where "w' = w1 @ [LogWarn l, Called (End s) y] @ tl" "tl = [] \<or> (\<exists>l'. tl = [LogWarn l'])"
    unfolding s_def by blast
  then have "\<exists>x rest. w' = w @ Called c1 x # rest \<and>
           (\<forall>c y. Called c y \<in> set rest \<longrightarrow> c \<in> set fr \<or> c = End s)"
  proof cases
    case 1
    with x rest show ?thesis by auto
  next
    case 2
    have "w' = w @ Called c1 x # (rest @ [LogWarn l, Called (End s) y] @ tl)"
      using 2 x by simp
    moreover have "\<forall>c y'. Called c y' \<in> set (rest @ [LogWarn l, Called (End s) y] @ tl) \<longrightarrow> c \<in> set fr \<or> c = End s"
      using rest 2(2) by auto
    ultimately show ?thesis by blast
  qed
  then show ?thesis unfolding fr_def s_def .
qed

lemma filter_subscribers_calls:
  "filter_subscribers (sendEvent E ev d i) subs w = (kept, w') \<Longrightarrow> l1 = ''event: '' @ ev @ LF \<Longrightarrow>
   \<exists>rest. w' = w @ rest \<and>
     (\<forall>c y. Called c y \<in> set rest \<longrightarrow> (\<exists>sub\<in>set subs. c \<in> set (frame E (socket sub) ev d i) \<or> c = End (socket sub))) \<and>
     (\<forall>sub subs'. subs = sub # subs' \<longrightarrow>
        (\<exists>x rest'. rest = Called (Write (socket sub) l1) x # rest'))"
proof (induction subs arbitrary: w kept w')
  case Nil
  then show ?case by simp
next
  case (Cons sub subs)
  define c1 where "c1 = Write (socket sub) l1"
  have c1: "c1 = Write (socket sub) (''event: '' @ ev @ LF)" using Cons.prems(2) c1_def by simp
  have c1f: "c1 \<in> set (frame E (socket sub) ev d i)" unfolding c1 by (simp add: frame_def)
  obtain keep w1 where s: "sendEvent E ev d i sub w = (keep, w1)" by fastforce
  obtain kept1 w2 where f: "filter_subscribers (sendEvent E ev d i) subs w1 = (kept1, w2)" by fastforce
  from Cons.prems(1) s f have res: "w' = w2" by auto
  from sendEvent_calls[OF s c1] obtain x r1 where r1:
    "w1 = w @ Called c1 x # r1"
    "\<forall>c y. Called c y \<in> set r1 \<longrightarrow> c \<in> set (frame E (socket sub) ev d i) \<or> c = End (socket sub)"
    by blast
  from Cons.IH[OF f Cons.prems(2)] obtain r2 where r2: "w2 = w1 @ r2"
    "\<forall>c y. Called c y \<in> set r2 \<longrightarrow> (\<exists>sub\<in>set subs. c \<in> set (frame E (socket sub) ev d i) \<or> c = End (socket sub))"
    by blast
  let ?rest = "Called c1 x # r1 @ r2"
  have a: "w' = w @ ?rest" using res r1(1) r2(1) by simp
  have b: "\<forall>c y. Called c y \<in> set ?rest \<longrightarrow>
     (\<exists>sub\<in>set (sub # subs). c \<in> set (frame E (socket sub) ev d i) \<or> c = End (socket sub))"
  proof (intro allI impI)
    fix c y assume "Called c y \<in> set ?rest"
    then consider "c = c1" | "Called c y \<in> set r1" | "Called c y \<in> set r2"
      by auto
    then show "\<exists>sub\<in>set (sub # subs). c \<in> set (frame E (socket sub) ev d i) \<or> c = End (socket sub)"
    proof cases
      case 1
      with c1f show ?thesis by simp
    next
      case 2
      with r1(2) show ?thesis by auto
    next
      case 3
      with r2(2) show ?thesis by auto
    qed
  qed
  show ?case
    apply (rule exI[of _ ?rest])
    using a b c1_def by simp
qed

lemma frame_writes_lines:
  "Write s c \<in> set (frame E s' ev d i) \<Longrightarrow>
   c = ''event: '' @ ev @ LF \<or> c = ''data: '' @ d @ LF \<or> c = ''id: '' @ i @ LF @ LF"
  by (auto simp: frame_def split: if_splits)

lemma serialized_resolved:
  "serialized E d =
     (case d of JStr s \<Rightarrow> s
      | _ \<Rightarrow> (case stringify E d of Some s \<Rightarrow> s | None \<Rightarrow> ''undefined''))"
  by (cases d) (simp_all add: serialized_def serializeData_def)

text \<open>
  C7 (broadcast name and payload resolution). The event name of a broadcast is the node's
  configured \<^verbatim>\<open>event\<close> when it is truthy, else the work item's \<^verbatim>\<open>topic\<close> when it is
  truthy, else \<^verbatim>\<open>message\<close>; the payload is the node's configured \<^verbatim>\<open>data\<close> when it is
  truthy, else the work item's \<^verbatim>\<open>payload\<close>. When the name cannot be converted to a
  string, the function throws a \<^verbatim>\<open>TypeError\<close> with no effect. Otherwise the pass logs
  the name and the serialized payload, every \<^verbatim>\<open>write\<close> of the pass is one of the three
  frame lines built from them and the work item's id, and the first subscriber is written
  the \<^verbatim>\<open>event:\<close> line first. A name that is a string is used as it is.
  \<^verbatim>\<open>_serializeData\<close> returns a string as it is and applies \<^verbatim>\<open>JSON.stringify\<close> to any
  other value; where that gives \<^verbatim>\<open>undefined\<close> the data line reads \<^verbatim>\<open>undefined\<close>.
\<close>

theorem broadcast_resolution:
  assumes "handleServerEvent E n m w = (r, n', w')"
  shows "(let name = (if truthy (event n) then event n
                      else if truthy (topic m) then topic m else JStr ''message'');
              d = (if truthy (data n) then data n else payload m);
              ds = (case d of JStr s \<Rightarrow> s
                    | _ \<Rightarrow> (case stringify E d of Some s \<Rightarrow> s | None \<Rightarrow> ''undefined''))
          in case template E name of
               None \<Rightarrow>
                 r = Some (TypeError ''Cannot convert object to primitive value'') \<and> n' = n \<and> w' = w
             | Some evs \<Rightarrow>
                 r = None \<and>
                 (\<exists>rest. w' = w @ [LogDebug (''Sent event: '' @ evs), LogDebug (''Data: '' @ ds)] @ rest \<and>
                    (\<forall>s c x. Called (Write s c) x \<in> set rest \<longrightarrow>
                       c = ''event: '' @ evs @ LF \<or> c = ''data: '' @ ds @ LF \<or>
                       c = ''id: '' @ msgid m @ LF @ LF) \<and>
                    (\<forall>sub subs. subscribers n = sub # subs \<longrightarrow>
                       (\<exists>x rest'. rest = Called (Write (socket sub) (''event: '' @ evs @ LF)) x # rest'))))
         \<and> (\<forall>s. template E (JStr s) = Some s)
         \<and> (\<forall>s. serializeData E (JStr s) = Some s)
         \<and> (\<forall>v. (\<forall>s. v \<noteq> JStr s) \<longrightarrow> serializeData E v = stringify E v)"
proof -
  define name where "name = (if truthy (event n) then event n
                      else if truthy (topic m) then topic m else JStr ''message'')"
  define d where "d = (if truthy (data n) then data n else payload m)"
  define ds where "ds = (case d of JStr s \<Rightarrow> s
                    | _ \<Rightarrow> (case stringify E d of Some s \<Rightarrow> s | None \<Rightarrow> ''undefined''))"
  have e1: "name = js_or (event n) (js_or (topic m) (JStr ''message''))"
    by (simp add: name_def js_or_def)
  have e2: "ds = serialized E (js_or (data n) (payload m))"
    unfolding ds_def serialized_resolved[symmetric] by (simp add: d_def js_or_def)
  have c: "serializeData E (JStr s) = Some s" for s by (simp add: serializeData_def)
  have d': "(\<forall>s. v \<noteq> JStr s) \<longrightarrow> serializeData E v = stringify E v" for v
    by (cases v) (simp_all add: serializeData_def)
  have t: "template E (JStr s) = Some s" for s by simp
  from handleServerEvent_cases[OF assms e1 e2]
  consider (throw) "template E name = None"
      "r = Some (TypeError ''Cannot convert object to primitive value'')" "n' = n" "w' = w"
    | (pass) evs kept where "template E name = Some evs" "r = None"
        "filter_subscribers (sendEvent E evs ds (msgid m)) (subscribers n)
              (w @ [LogDebug (''Sent event: '' @ evs), LogDebug (''Data: '' @ ds)]) = (kept, w')"
    by auto
  then have main: "case template E name of
               None \<Rightarrow>
                 r = Some (TypeError ''Cannot convert object to primitive value'') \<and> n' = n \<and> w' = w
             | Some evs \<Rightarrow>
                 r = None \<and>
                 (\<exists>rest. w' = w @ [LogDebug (''Sent event: '' @ evs), LogDebug (''Data: '' @ ds)] @ rest \<and>
                    (\<forall>s c x. Called (Write s c) x \<in> set rest \<longrightarrow>
                       c = ''event: '' @ evs @ LF \<or> c = ''data: '' @ ds @ LF \<or>
                       c = ''id: '' @ msgid m @ LF @ LF) \<and>
                    (\<forall>sub subs. subscribers n = sub # subs \<longrightarrow>
                       (\<exists>x rest'. rest = Called (Write (socket sub) (''event: '' @ evs @ LF)) x # rest')))"
  proof cases
    case throw
    then show ?thesis by simp
  next
    case pass
    define pre where "pre = [LogDebug (''Sent event: '' @ evs), LogDebug (''Data: '' @ ds)]"
    define l1 where "l1 = ''event: '' @ evs @ LF"
    note f = pass(3)[folded pre_def]
    from filter_subscribers_calls[OF f l1_def] obtain rest where rest:
      "w' = (w @ pre) @ rest"
      "\<forall>c y. Called c y \<in> set rest \<longrightarrow>
         (\<exists>sub\<in>set (subscribers n). c \<in> set (frame E (socket sub) evs ds (msgid m)) \<or> c = End (socket sub))"
      "\<forall>sub subs'. subscribers n = sub # subs' \<longrightarrow>
          (\<exists>x rest'. rest = Called (Write (socket sub) l1) x # rest')"
      by blast
    have a: "w' = w @ pre @ rest" using rest(1) by simp
    have b: "\<forall>s c x. Called (Write s c) x \<in> set rest \<longrightarrow>
                  c = ''event: '' @ evs @ LF \<or> c = ''data: '' @ ds @ LF \<or>
                  c = ''id: '' @ msgid m @ LF @ LF"
    proof (intro allI impI)
      fix s c x assume "Called (Write s c) x \<in> set rest"
      with rest(2) have "\<exists>sub\<in>set (subscribers n).
          Write s c \<in> set (frame E (socket sub) evs ds (msgid m)) \<or> Write s c = End (socket sub)"
        by blast
      then obtain sub :: subscriber where "Write s c \<in> set (frame E (socket sub) evs ds (msgid m))"
        by auto
      then show "c = ''event: '' @ evs @ LF \<or> c = ''data: '' @ ds @ LF \<or>
                    c = ''id: '' @ msgid m @ LF @ LF" by (rule frame_writes_lines)
    qed
    have "\<exists>rest. w' = w @ pre @ rest \<and>
               (\<forall>s c x. Called (Write s c) x \<in> set rest \<longrightarrow>
                  c = ''event: '' @ evs @ LF \<or> c = ''data: '' @ ds @ LF \<or>
                  c = ''id: '' @ msgid m @ LF @ LF) \<and>
               (\<forall>sub subs. subscribers n = sub # subs \<longrightarrow>
                  (\<exists>x rest'. rest = Called (Write (socket sub) l1) x # rest'))"
      using a b rest(3) by blast
    then show ?thesis using pass(1,2) unfolding pre_def l1_def by simp
  qed
  show ?thesis
    unfolding Let_def name_def[symmetric] d_def[symmetric] ds_def[symmetric]
    using main c d' t by blast
qed

theorem broadcast_resolution_witness:
  "subscribers node_AB = sub_A # [sub_B] \<and> \<not> truthy (event node_AB) \<and> truthy (topic msg_tick) \<and>
   template env_ok (topic msg_tick) = Some ''tick'' \<and>
   (\<forall>s. JNum 3 \<noteq> JStr s) \<and> serializeData env_ok (JNum 3) = stringify env_ok (JNum 3) \<and>
   (\<exists>n' w' x. handleServerEvent env_ok node_AB msg_tick [] = (None, n', w') \<and>
      take 3 w' = [LogDebug ''Sent event: tick'', LogDebug ''Data: 1'',
                   Called (Write 1 (''event: tick'' @ LF)) x]) \<and>
   truthy (topic msg_badtopic) \<and> template env_ok (topic msg_badtopic) = None \<and>
   handleServerEvent env_ok node_AB msg_badtopic [] =
     (Some (TypeError ''Cannot convert object to primitive value''), node_AB, [])"
proof -
  obtain r n' w' where eq: "handleServerEvent env_ok node_AB msg_tick [] = (r, n', w')"
    using prod_cases3 by blast
  obtain r2 n2 w2 where eq2: "handleServerEvent env_ok node_AB msg_badtopic [] = (r2, n2, w2)"
    using prod_cases3 by blast
  have s: "subscribers node_AB = sub_A # [sub_B]" by (simp add: node_AB_def)
  have t: "\<not> truthy (event node_AB)" "truthy (topic msg_tick)" "truthy (topic msg_badtopic)"
    by (simp_all add: node_AB_def msg_tick_def msg_badtopic_def)
  have tt: "template env_ok (topic msg_tick) = Some ''tick''"
    by (simp add: msg_tick_def)
  have tb: "template env_ok (topic msg_badtopic) = None"
    by (simp add: msg_badtopic_def env_ok_def conversion_def)
  have v: "\<forall>s. JNum 3 \<noteq> JStr s" by simp
  note th = broadcast_resolution[OF eq, unfolded Let_def]
  note sd = th[THEN conjunct2, THEN conjunct2, THEN conjunct2]
  have p: "payload msg_tick = JStr ''1''" "\<not> truthy (data node_AB)" "msgid msg_tick = ''e1''"
    by (simp_all add: node_AB_def msg_tick_def)
  from th[THEN conjunct1] have
    "r = None \<and> (\<exists>rest. w' = [LogDebug ''Sent event: tick'', LogDebug ''Data: 1''] @ rest \<and>
       (\<forall>sub subs. subscribers node_AB = sub # subs \<longrightarrow>
          (\<exists>x rest'. rest = Called (Write (socket sub) (''event: tick'' @ LF)) x # rest')))"
    unfolding if_not_P[OF t(1)] if_P[OF t(2)] if_not_P[OF p(2)] p(1) tt
    by auto
  then obtain rest where r: "r = None" and rest: "w' = [LogDebug ''Sent event: tick'', LogDebug ''Data: 1''] @ rest"
    "\<forall>sub subs. subscribers node_AB = sub # subs \<longrightarrow>
          (\<exists>x rest'. rest = Called (Write (socket sub) (''event: tick'' @ LF)) x # rest')"
    by blast
  from rest(2) s obtain x rest' where "rest = Called (Write (socket sub_A) (''event: tick'' @ LF)) x # rest'"
    by blast
  with rest(1) have "take 3 w' = [LogDebug ''Sent event: tick'', LogDebug ''Data: 1'',
                   Called (Write 1 (''event: tick'' @ LF)) x]"
    by (simp add: sub_A_def)
  with eq r have a: "\<exists>n' w' x. handleServerEvent env_ok node_AB msg_tick [] = (None, n', w') \<and>
      take 3 w' = [LogDebug ''Sent event: tick'', LogDebug ''Data: 1'',
                   Called (Write 1 (''event: tick'' @ LF)) x]"
    by blast
  from sd v have b: "serializeData env_ok (JNum 3) = stringify env_ok (JNum 3)"
    by blast
  from broadcast_resolution[OF eq2, unfolded Let_def, THEN conjunct1]
  have "r2 = Some (TypeError ''Cannot convert object to primitive value'') \<and> n2 = node_AB \<and> w2 = []"
    unfolding if_not_P[OF t(1)] if_P[OF t(3)] tb by simp
  with eq2 have c: "handleServerEvent env_ok node_AB msg_badtopic [] =
     (Some (TypeError ''Cannot convert object to primitive value''), node_AB, [])" by simp
  show ?thesis using s t tt v b a tb c by blast
qed

subsection \<open>Registration\<close>

lemma registerSubscriber_part_trace:
  assumes "registerSubscriber_part E n m w = (r, n', w')" and "res m = Some s"
    and "calls E (openStream E m s) (w @ [LogDebug ''Client connected'']) = (ro, w1)"
    and "h = Closure_part (msgid m) s (remoteAddress E s)"
  shows "(ro \<noteq> None \<and> r = ro \<and> n' = n \<and> w' = w1) \<or>
         (ro = None \<and> (\<exists>x. r = Some (Error x) \<and> n' = n \<and> w' = w1 @ [Called (On s h) (Some x)])) \<or>
         (ro = None \<and> r = None \<and>
          n' = (if list_ex (\<lambda>sub. sub_id sub = msgid m) (subscribers n) then n
                else n\<lparr>subscribers := subscribers n @
                        [\<lparr>sub_id = msgid m, socket = s, closeHandler = Some h\<rparr>]\<rparr>) \<and>
          w' = w1 @ [Called (On s h) None, Status ''green'' ''dot'' (length (subscribers n')),
                     Send (m\<lparr>payload := JObj [(''event'', JStr ''connect''),
                                               (''subscribers'', JNum (int (length (subscribers n')))),
                                               (''ip'', remoteAddress E s)]\<rparr>)])"
  using assms
  by (auto simp: registerSubscriber_part_def Let_def invoke_def updateNodeStatus_def
      split: option.splits if_splits)

lemma registerSubscriber_src_trace:
  assumes "registerSubscriber_src E n m w = (r, n', w')" and "res m = Some s"
    and "calls E (openStream E m s) (w @ [LogDebug ''Client connected'']) = (ro, w1)"
    and "m1 = m\<lparr>payload := JObj [(''event'', JStr ''connect'')]\<rparr>"
  shows "(ro \<noteq> None \<and> r = ro \<and> n' = n \<and> w' = w1) \<or>
         (ro = None \<and> (\<exists>x. r = Some (Error x) \<and> n' = n \<and>
             w' = w1 @ [Send m1, Called (On s (Closure_src m1)) (Some x)])) \<or>
         (ro = None \<and> r = None \<and>
          n' = (if list_ex (\<lambda>sub. sub_id sub = msgid m) (subscribers n) then n
                else n\<lparr>subscribers := subscribers n @
                        [\<lparr>sub_id = msgid m, socket = s, closeHandler = None\<rparr>]\<rparr>) \<and>
          w' = w1 @ [Send m1, Called (On s (Closure_src m1)) None,
                     Status ''green'' ''dot'' (length (subscribers n'))])"
  using assms
  by (auto simp: registerSubscriber_src_def Let_def invoke_def updateNodeStatus_def
      split: option.splits if_splits)











subsection \<open>The input handler\<close>

lemma plain_calls:
  assumes "calls E cs w = (r, w')"
  shows "\<exists>new. w' = w @ new \<and> list_all plain new"
proof -
  from calls_effects[OF assms] obtain new where "w' = w @ new"
    "\<forall>e\<in>set new. \<exists>c x. e = Called c x \<and> c \<in> set cs" by blast
  then show ?thesis by (auto simp: list_all_iff)
qed

lemma plain_sendEvent:
  assumes "sendEvent E ev d i sub w = (keep, w')"
  shows "\<exists>new. w' = w @ new \<and> list_all plain new"
proof -
  obtain r w1 where c: "calls E (frame E (socket sub) ev d i) w = (r, w1)" by fastforce
  from plain_calls[OF c] obtain n1 where n1: "w1 = w @ n1" "list_all plain n1" by blast
  from sendEvent_unfold[OF assms c]
  consider "w' = w1" | l y tl where "w' = w1 @ [LogWarn l, Called (End (socket sub)) y] @ tl"
    "tl = [] \<or> (\<exists>l'. tl = [LogWarn l'])"
    by blast
  then show ?thesis
  proof cases
    case 1
    with n1 show ?thesis by blast
  next
    case 2
    then have "w' = w @ (n1 @ [LogWarn l, Called (End (socket sub)) y] @ tl)"
      "list_all plain (n1 @ [LogWarn l, Called (End (socket sub)) y] @ tl)"
      using n1 by auto
    then show ?thesis by blast
  qed
qed

lemma plain_filter_subscribers:
  "filter_subscribers (sendEvent E ev d i) subs w = (kept, w') \<Longrightarrow>
   \<exists>new. w' = w @ new \<and> list_all plain new"
proof (induction subs arbitrary: w kept w')
  case Nil
  then show ?case by simp
next
  case (Cons sub subs)
  obtain keep w1 where s: "sendEvent E ev d i sub w = (keep, w1)" by fastforce
  obtain kept1 w2 where f: "filter_subscribers (sendEvent E ev d i) subs w1 = (kept1, w2)"
    by fastforce
  from Cons.prems s f have res: "w' = w2" by auto
  from plain_sendEvent[OF s] obtain n1 where n1: "w1 = w @ n1" "list_all plain n1" by blast
  from Cons.IH[OF f] obtain n2 where n2: "w2 = w1 @ n2" "list_all plain n2" by blast
  from res n1 n2 have "w' = w @ (n1 @ n2)" "list_all plain (n1 @ n2)" by auto
  then show ?case by blast
qed

lemma plain_handleServerEvent:
  assumes "handleServerEvent E n m w = (r, n', w')"
  shows "\<exists>new. w' = w @ new \<and> list_all plain new"
proof -
  define d where "d = serialized E (js_or (data n) (payload m))"
  from handleServerEvent_cases[OF assms refl d_def]
  consider (throw) "w' = w"
    | (pass) ev kept where
        "filter_subscribers (sendEvent E ev d (msgid m)) (subscribers n)
              (w @ [LogDebug (''Sent event: '' @ ev), LogDebug (''Data: '' @ d)]) = (kept, w')"
    by auto
  then show ?thesis
  proof cases
    case throw
    then show ?thesis by simp
  next
    case pass
    define pre where "pre = [LogDebug (''Sent event: '' @ ev), LogDebug (''Data: '' @ d)]"
    from plain_filter_subscribers[OF pass[folded pre_def]]
    obtain new where "w' = (w @ pre) @ new" "list_all plain new" by blast
    then have "w' = w @ (pre @ new)" "list_all plain (pre @ new)" by (auto simp: pre_def)
    then show ?thesis by blast
  qed
qed

lemma plain_registerSubscriber:
  assumes "registerSubscriber v E n m w = (r, n', w')"
  shows "\<exists>new. w' = w @ new \<and> list_all plain new"
proof (cases "res m")
  case None
  with assms have "w' = w @ [LogDebug ''Client connected'']"
    by (cases v) (auto simp: registerSubscriber_def registerSubscriber_src_def
        registerSubscriber_part_def Let_def)
  then show ?thesis by auto
next
  case (Some s)
  define pre where "pre = LogDebug ''Client connected''"
  obtain ro w1 where c: "calls E (openStream E m s) (w @ [pre]) = (ro, w1)" by fastforce
  from plain_calls[OF c] obtain n1 where n1: "w1 = (w @ [pre]) @ n1" "list_all plain n1" by blast
  have "\<exists>tl. w' = w1 @ tl \<and> list_all plain tl"
  proof (cases v)
    case Src
    with assms have "registerSubscriber_src E n m w = (r, n', w')"
      by (simp add: registerSubscriber_def)
    from registerSubscriber_src_trace[OF this Some c[unfolded pre_def] refl] show ?thesis by auto
  next
    case Part
    with assms have "registerSubscriber_part E n m w = (r, n', w')"
      by (simp add: registerSubscriber_def)
    from registerSubscriber_part_trace[OF this Some c[unfolded pre_def] refl] show ?thesis by auto
  qed
  then obtain tl where "w' = w1 @ tl" "list_all plain tl" by blast
  with n1 have "w' = w @ (pre # n1 @ tl)" "list_all plain (pre # n1 @ tl)" by (auto simp: pre_def)
  then show ?thesis by blast
qed

lemma plain_set: "list_all plain new \<Longrightarrow> Done \<notin> set new \<and> (\<forall>x. LogError x \<notin> set new)"
  by (auto simp: list_all_iff)

text \<open>
  C8 (work-item completion under exceptions), for both files. The input handler has no
  exceptional result: what \<^verbatim>\<open>registerSubscriber\<close> or \<^verbatim>\<open>handleServerEvent\<close> throws is
  caught. Its effects are those of the dispatched function, then, when that function threw
  \<open>e\<close>, \<^verbatim>\<open>RED.log.error(e)\<close> and the status with the red indicator, and last, when
  \<^verbatim>\<open>done\<close> is a function, the one call of \<^verbatim>\<open>done\<close>, on the error path as on the success
  path. No error is logged when nothing was thrown.
\<close>

theorem work_item_completion:
  assumes "on_input v E n m dn w = (n', w')"
  shows "\<exists>new. w' = w @ new @ (if dn then [Done] else []) \<and> Done \<notin> set new \<and>
           (case (if res m \<noteq> None then fst (registerSubscriber v E n m w)
                  else fst (handleServerEvent E n m w)) of
              None \<Rightarrow> (\<forall>x. LogError x \<notin> set new)
            | Some e \<Rightarrow>
                (\<exists>pre. new = pre @ [LogError e, Status ''red'' ''dot'' (length (subscribers n'))] \<and>
                   (\<forall>x. LogError x \<notin> set pre)))"
proof -
  define body where "body = (if res m \<noteq> None then registerSubscriber v E n m w
            else handleServerEvent E n m w)"
  obtain r n1 w1 where b: "body = (r, n1, w1)" by (metis prod_cases3)
  have "\<exists>new. w1 = w @ new \<and> list_all plain new"
  proof (cases "res m \<noteq> None")
    case True
    with b have "registerSubscriber v E n m w = (r, n1, w1)" by (simp add: body_def)
    then show ?thesis by (rule plain_registerSubscriber)
  next
    case False
    with b have "handleServerEvent E n m w = (r, n1, w1)" by (simp add: body_def)
    then show ?thesis by (rule plain_handleServerEvent)
  qed
  then obtain new1 where new1: "w1 = w @ new1" "list_all plain new1" by blast
  note p = plain_set[OF new1(2)]
  have rr: "(if res m \<noteq> None then fst (registerSubscriber v E n m w)
             else fst (handleServerEvent E n m w)) = r"
    using b by (auto simp: body_def split: if_splits)
  from assms b have o: "n' = n1"
    "w' = (case r of None \<Rightarrow> w1 | Some e \<Rightarrow> updateNodeStatus n1 ''error'' (w1 @ [LogError e]))
          @ (if dn then [Done] else [])"
    by (auto simp: on_input_def body_def Let_def)
  show ?thesis
  proof (cases r)
    case None
    with o new1 have "w' = w @ new1 @ (if dn then [Done] else [])" by simp
    with p None rr show ?thesis by auto
  next
    case (Some e)
    let ?new = "new1 @ [LogError e, Status ''red'' ''dot'' (length (subscribers n'))]"
    from Some o new1 have "w' = w @ ?new @ (if dn then [Done] else [])"
      by (simp add: updateNodeStatus_def)
    moreover have "Done \<notin> set ?new" using p by simp
    ultimately show ?thesis using p Some rr by auto
  qed
qed

theorem work_item_completion_witness:
  "res (reg ''m1'' 1) \<noteq> None \<and>
   fst (registerSubscriber Part env_broken1 node0 (reg ''m1'' 1) []) = Some (Error ''EPIPE'') \<and>
   (\<exists>n' w' pre. on_input Part env_broken1 node0 (reg ''m1'' 1) True [] = (n', w') \<and>
      w' = pre @ [LogError (Error ''EPIPE''), Status ''red'' ''dot'' 0, Done]) \<and>
   res msg_badtopic = None \<and>
   fst (handleServerEvent env_ok node_AB msg_badtopic []) =
     Some (TypeError ''Cannot convert object to primitive value'') \<and>
   (\<exists>n' w' pre. on_input Src env_ok node_AB msg_badtopic True [] = (n', w') \<and>
      w' = pre @ [LogError (TypeError ''Cannot convert object to primitive value''),
                  Status ''red'' ''dot'' 2, Done])"
proof -
  let ?m = "reg ''m1'' 1"
  obtain n' w' where eq: "on_input Part env_broken1 node0 ?m True [] = (n', w')" by fastforce
  have rs: "res ?m \<noteq> None" by (simp add: reg_def)
  have f: "fst (registerSubscriber Part env_broken1 node0 ?m []) = Some (Error ''EPIPE'')"
    by code_simp
  have "length (subscribers (fst (on_input Part env_broken1 node0 ?m True []))) = 0"
    by code_simp
  with eq have l: "length (subscribers n') = 0" by simp
  from work_item_completion[OF eq] rs f l obtain new pre where
    "w' = [] @ new @ [Done]" "new = pre @ [LogError (Error ''EPIPE''), Status ''red'' ''dot'' 0]"
    by auto
  then have "w' = pre @ [LogError (Error ''EPIPE''), Status ''red'' ''dot'' 0, Done]" by simp
  with eq have a: "\<exists>n' w' pre. on_input Part env_broken1 node0 (reg ''m1'' 1) True [] = (n', w') \<and>
      w' = pre @ [LogError (Error ''EPIPE''), Status ''red'' ''dot'' 0, Done]" by blast
  define te where "te = TypeError ''Cannot convert object to primitive value''"
  obtain n2 w2 where eq2: "on_input Src env_ok node_AB msg_badtopic True [] = (n2, w2)" by fastforce
  have rs2: "res msg_badtopic = None" by (simp add: msg_badtopic_def)
  have f2: "fst (handleServerEvent env_ok node_AB msg_badtopic []) = Some te"
    unfolding te_def by code_simp
  have "length (subscribers (fst (on_input Src env_ok node_AB msg_badtopic True []))) = 2"
    by code_simp
  with eq2 have l2: "length (subscribers n2) = 2" by simp
  from work_item_completion[OF eq2] rs2 f2 l2 obtain new2 pre2 where
    "w2 = [] @ new2 @ [Done]" "new2 = pre2 @ [LogError te, Status ''red'' ''dot'' 2]"
    by auto
  then have "w2 = pre2 @ [LogError te, Status ''red'' ''dot'' 2, Done]" by simp
  with eq2 have b: "\<exists>n' w' pre. on_input Src env_ok node_AB msg_badtopic True [] = (n', w') \<and>
      w' = pre @ [LogError te, Status ''red'' ''dot'' 2, Done]" by blast
  show ?thesis using rs f a rs2 f2[unfolded te_def] b[unfolded te_def] by blast
qed

subsection \<open>The drain on a runtime event\<close>

lemma failed_before_end_append:
  "failed_before_end (a @ b) s = (failed_before_end a s \<or> failed_before_end b s)"
  by (auto simp: failed_before_end_def list_ex_iff)

lemma untouched_failed_before_end: "s \<notin> touched w \<Longrightarrow> \<not> failed_before_end w s"
  by (auto simp: failed_before_end_def list_ex_iff dest: on_sock_touched)

lemma threw_before_end_simp:
  "threw_before_end (Called c x) = (\<not> is_end_call c \<and> x \<noteq> None)"
  by (cases c; cases x) simp_all

lemma is_end_simp: "is_end (Called c x) = is_end_call c"
  by (cases c) simp_all

lemma threw_simp: "threw (Called c x) = (x \<noteq> None)"
  by (cases x) simp_all

lemma calls_then_end:
  "calls E (pre @ [End s]) w = (r, w') \<Longrightarrow>
   list_all (\<lambda>c. call_sock c = s \<and> \<not> is_end_call c) pre \<Longrightarrow>
   \<exists>new. w' = w @ new \<and> touched new \<subseteq> {s} \<and> list_all plain new \<and>
      filter is_warn new = [] \<and>
      length (filter is_end new) + length (filter threw_before_end new) = 1 \<and>
      length (filter threw new) = (if r = None then 0 else 1) \<and>
      failed_before_end new s = (length (filter threw_before_end new) = 1) \<and>
      end_calls new s = length (filter is_end new)"
proof (induction pre arbitrary: w)
  case Nil
  obtain r1 w1 where i: "invoke E (End s) w = (r1, w1)" by fastforce
  from invoke_effects[OF i] obtain x where x: "w1 = w @ [Called (End s) x]" "(r1 = None) = (x = None)"
    by blast
  from Nil.prems(1) i have "r = r1" "w' = w1" by (auto split: option.splits)
  with x show ?case
    apply (intro exI[of _ "[Called (End s) x]"])
    by (auto simp: touched_def failed_before_end_def end_calls_def threw_simp)
next
  case (Cons c pre)
  obtain r1 w1 where i: "invoke E c w = (r1, w1)" by fastforce
  from invoke_effects[OF i] obtain x where x: "w1 = w @ [Called c x]" "(r1 = None) = (x = None)"
    by blast
  from Cons.prems(2) have c: "call_sock c = s" "\<not> is_end_call c"
    and pre: "list_all (\<lambda>c. call_sock c = s \<and> \<not> is_end_call c) pre" by auto
  show ?case
  proof (cases r1)
    case None
    with i Cons.prems(1) have "calls E (pre @ [End s]) w1 = (r, w')" by simp
    from Cons.IH[OF this pre] obtain new where n: "w' = w1 @ new" "touched new \<subseteq> {s}"
      "list_all plain new" "filter is_warn new = []"
      "length (filter is_end new) + length (filter threw_before_end new) = 1"
      "length (filter threw new) = (if r = None then 0 else 1)"
      "failed_before_end new s = (length (filter threw_before_end new) = 1)"
      "end_calls new s = length (filter is_end new)" by blast
    from None x have xn: "x = None" by simp
    have h: "\<not> failed_before_end [Called c x] s" "end_calls [Called c x] s = 0"
      using xn c by (simp_all add: failed_before_end_def end_calls_def is_end_simp
          threw_before_end_simp)
    show ?thesis
      apply (rule exI[of _ "[Called c x] @ new"])
      using n x xn c h
      by (simp add: touched_append failed_before_end_append end_calls_append
          threw_before_end_simp is_end_simp threw_simp del: append.simps)
        (simp add: touched_def)
  next
    case (Some e)
    with i Cons.prems(1) have "r = Some e" "w' = w1" by auto
    moreover from Some x obtain m where "x = Some m" by auto
    ultimately show ?thesis
      apply (intro exI[of _ "[Called c x]"])
      using x c
      by (auto simp: touched_def failed_before_end_def end_calls_def threw_before_end_simp
          is_end_simp)
  qed
qed

lemma closeSubscriber_part_calls:
  "\<exists>pre. (case closeHandler sub of None \<Rightarrow> [] | Some h \<Rightarrow> [RemoveListener (socket sub) h])
            @ frame E (socket sub) ev d i @ [End (socket sub)] = pre @ [End (socket sub)] \<and>
         list_all (\<lambda>c. call_sock c = socket sub \<and> \<not> is_end_call c) pre"
  by (auto simp: frame_def split: option.splits)

lemma closeSubscriber_part_effects:
  assumes "closeSubscriber_part E sub w = (r, w')"
  shows "r = None \<and>
         (\<exists>new. w' = w @ new \<and> touched new \<subseteq> {socket sub} \<and> list_all plain new \<and>
            length (filter is_end new) + length (filter threw_before_end new) = 1 \<and>
            length (filter is_warn new) = length (filter threw new) \<and>
            end_calls new (socket sub) = (if failed_before_end new (socket sub) then 0 else 1))"
proof -
  define s where "s = socket sub"
  define cs where "cs = (case closeHandler sub of None \<Rightarrow> [] | Some h \<Rightarrow> [RemoveListener s h])
            @ frame E s ''close'' ''Collection closed'' ''0'' @ [End s]"
  obtain pre where pre: "cs = pre @ [End s]"
    "list_all (\<lambda>c. call_sock c = s \<and> \<not> is_end_call c) pre"
    using closeSubscriber_part_calls[of sub E] unfolding cs_def s_def by blast
  obtain r1 w1 where c: "calls E cs w = (r1, w1)" by fastforce
  from calls_then_end[OF c[unfolded pre(1)] pre(2)] obtain n1 where n1:
    "w1 = w @ n1" "touched n1 \<subseteq> {s}" "list_all plain n1" "filter is_warn n1 = []"
    "length (filter is_end n1) + length (filter threw_before_end n1) = 1"
    "length (filter threw n1) = (if r1 = None then 0 else 1)"
    "failed_before_end n1 s = (length (filter threw_before_end n1) = 1)"
    "end_calls n1 s = length (filter is_end n1)" by blast
  from assms c have res: "r = None"
    "(r1 = None \<and> w' = w1) \<or> (\<exists>l. r1 \<noteq> None \<and> w' = w1 @ [LogWarn l])"
    by (auto simp: closeSubscriber_part_def cs_def s_def split: option.splits)
  then consider "r1 = None" "w' = w1" | l where "r1 \<noteq> None" "w' = w1 @ [LogWarn l]"
    by blast
  then have "\<exists>new. w' = w @ new \<and> touched new \<subseteq> {s} \<and> list_all plain new \<and>
            length (filter is_end new) + length (filter threw_before_end new) = 1 \<and>
            length (filter is_warn new) = length (filter threw new) \<and>
            end_calls new s = (if failed_before_end new s then 0 else 1)"
  proof cases
    case 1
    show ?thesis
      apply (rule exI[of _ n1])
      using 1 n1 by auto
  next
    case 2
    have t: "touched (n1 @ [LogWarn l]) \<subseteq> {s}" using n1(2) by (auto simp: touched_def)
    show ?thesis
      apply (rule exI[of _ "n1 @ [LogWarn l]"])
      using 2 n1 t
      by (auto simp: failed_before_end_append end_calls_append failed_before_end_def
          end_calls_def)
  qed
  with res(1) show ?thesis unfolding s_def by simp
qed

lemma forEach_closeSubscriber_part:
  "forEach (closeSubscriber_part E) subs w = (r, w') \<Longrightarrow>
   r = None \<and>
   (\<exists>new. w' = w @ new \<and> touched new \<subseteq> socket ` set subs \<and> list_all plain new \<and>
      length (filter is_end new) + length (filter threw_before_end new) = length subs \<and>
      length (filter is_warn new) = length (filter threw new) \<and>
      (distinct (map socket subs) \<longrightarrow>
         (\<forall>sub\<in>set subs.
            end_calls new (socket sub) = (if failed_before_end new (socket sub) then 0 else 1))))"
proof (induction subs arbitrary: w)
  case Nil
  then show ?case by (simp add: touched_def)
next
  case (Cons sub subs)
  obtain r1 w1 where s: "closeSubscriber_part E sub w = (r1, w1)" by fastforce
  from closeSubscriber_part_effects[OF s] obtain n1 where r1: "r1 = None" and n1:
    "w1 = w @ n1" "touched n1 \<subseteq> {socket sub}" "list_all plain n1"
    "length (filter is_end n1) + length (filter threw_before_end n1) = 1"
    "length (filter is_warn n1) = length (filter threw n1)"
    "end_calls n1 (socket sub) = (if failed_before_end n1 (socket sub) then 0 else 1)"
    by blast
  from Cons.prems s r1 have f: "forEach (closeSubscriber_part E) subs w1 = (r, w')" by simp
  from Cons.IH[OF f] obtain n2 where r: "r = None" and n2:
    "w' = w1 @ n2" "touched n2 \<subseteq> socket ` set subs" "list_all plain n2"
    "length (filter is_end n2) + length (filter threw_before_end n2) = length subs"
    "length (filter is_warn n2) = length (filter threw n2)"
    "distinct (map socket subs) \<longrightarrow>
         (\<forall>sub\<in>set subs.
            end_calls n2 (socket sub) = (if failed_before_end n2 (socket sub) then 0 else 1))"
    by blast
  have a: "w' = w @ (n1 @ n2)" using n1(1) n2(1) by simp
  have b: "touched (n1 @ n2) \<subseteq> socket ` set (sub # subs)"
    using n1(2) n2(2) by (auto simp: touched_append)
  have c: "list_all plain (n1 @ n2)" using n1(3) n2(3) by simp
  have d: "length (filter is_end (n1 @ n2)) + length (filter threw_before_end (n1 @ n2))
           = length (sub # subs)"
    using n1(4) n2(4) by simp
  have e: "length (filter is_warn (n1 @ n2)) = length (filter threw (n1 @ n2))"
    using n1(5) n2(5) by simp
  have g: "\<forall>x\<in>set (sub # subs).
            end_calls (n1 @ n2) (socket x) = (if failed_before_end (n1 @ n2) (socket x) then 0 else 1)"
    if dist: "distinct (map socket (sub # subs))"
  proof -
    from dist have ds: "distinct (map socket subs)" and ni: "socket sub \<notin> socket ` set subs"
      by auto
    from ni n2(2) have u2: "socket sub \<notin> touched n2" by auto
    have u1: "socket x \<notin> touched n1" if "x \<in> set subs" for x
    proof
      assume "socket x \<in> touched n1"
      with n1(2) have "socket x = socket sub" by blast
      with that ni show False by (metis imageI)
    qed
    have h1: "end_calls (n1 @ n2) (socket sub)
              = (if failed_before_end (n1 @ n2) (socket sub) then 0 else 1)"
      using n1(6) untouched_end_calls[OF u2] untouched_failed_before_end[OF u2]
      by (simp add: end_calls_append failed_before_end_append)
    have h2: "end_calls (n1 @ n2) (socket x)
              = (if failed_before_end (n1 @ n2) (socket x) then 0 else 1)"
      if "x \<in> set subs" for x
      using n2(6) ds that untouched_end_calls[OF u1[OF that]]
        untouched_failed_before_end[OF u1[OF that]]
      by (simp add: end_calls_append failed_before_end_append)
    show ?thesis using h1 h2 by simp
  qed
  show ?case
    apply (rule conjI[OF r])
    apply (rule exI[of _ "n1 @ n2"])
    using a b c d e g by blast
qed

text \<open>
  What \<^verbatim>\<open>_runtimeHandler\<close> of \<^verbatim>\<open>part_000\<close> does for every registry and every
  environment. It never throws and leaves the registry empty. Every subscriber accounts for
  exactly one of: a call of \<^verbatim>\<open>end\<close>, or a listener removal, \<^verbatim>\<open>write\<close> or \<^verbatim>\<open>flush\<close>
  that threw, after which \<^verbatim>\<open>end\<close> is not called for it. Every call that threw is logged
  as a warning and the remaining subscribers are still visited.
\<close>

lemma runtimeHandler_part_drain:
  assumes "runtimeHandler_part E n w = (r, n', w')"
  shows "r = None \<and> subscribers n' = [] \<and>
         (\<exists>new. w' = w @ new \<and>
            length (filter is_end new) + length (filter threw_before_end new)
              = length (subscribers n) \<and>
            length (filter is_warn new) = length (filter threw new) \<and>
            (distinct (map socket (subscribers n)) \<longrightarrow>
               (\<forall>sub\<in>set (subscribers n).
                  end_calls new (socket sub)
                    = (if failed_before_end new (socket sub) then 0 else 1))))"
proof -
  define st where "st = Status ''green'' ''dot'' (length (subscribers n))"
  obtain r1 w1 where f:
    "forEach (closeSubscriber_part E) (subscribers n) (w @ [st]) = (r1, w1)" by fastforce
  from forEach_closeSubscriber_part[OF f] obtain new where r1: "r1 = None" and new:
    "w1 = (w @ [st]) @ new"
    "length (filter is_end new) + length (filter threw_before_end new) = length (subscribers n)"
    "length (filter is_warn new) = length (filter threw new)"
    "distinct (map socket (subscribers n)) \<longrightarrow>
         (\<forall>sub\<in>set (subscribers n).
            end_calls new (socket sub) = (if failed_before_end new (socket sub) then 0 else 1))"
    by blast
  from assms f r1 have res: "r = None" "subscribers n' = []" "w' = w1"
    by (auto simp: runtimeHandler_part_def updateNodeStatus_def st_def)
  have q: "\<not> is_end st" "\<not> threw_before_end st" "\<not> is_warn st"
    "\<not> threw st" "\<not> failed_before_end [st] s" "end_calls [st] s = 0" for s
    by (simp_all add: st_def failed_before_end_def end_calls_def)
  have "w' = w @ ([st] @ new)" using res(3) new(1) by simp
  moreover have "length (filter is_end ([st] @ new)) + length (filter threw_before_end ([st] @ new))
              = length (subscribers n)"
    using new(2) q by simp
  moreover have "length (filter is_warn ([st] @ new)) = length (filter threw ([st] @ new))"
    using new(3) q by simp
  moreover have "distinct (map socket (subscribers n)) \<longrightarrow>
               (\<forall>sub\<in>set (subscribers n).
                  end_calls ([st] @ new) (socket sub)
                    = (if failed_before_end ([st] @ new) (socket sub) then 0 else 1))"
    using new(4) q(5,6) unfolding end_calls_append failed_before_end_append by simp
  ultimately show ?thesis using res(1,2) by blast
qed

text \<open>
  C4 (drain completeness under failure) does not hold of either file. The registry is
  \<^verbatim>\<open>[A, B]\<close>, with A on response object 1 and B on response object 2, and every
  \<^verbatim>\<open>write\<close> on response object 1 throws \<^verbatim>\<open>EPIPE\<close>.

  In \<^verbatim>\<open>sse-server.js\<close> (lines 175-192) the \<^verbatim>\<open>write\<close> and \<^verbatim>\<open>flush\<close> calls are outside
  the \<^verbatim>\<open>try\<close>: the first \<^verbatim>\<open>write\<close> throws out of the handler, nothing is logged, the
  registry still has both entries, and \<^verbatim>\<open>end\<close> is called on neither response object;
  subscriber B is never visited.

  In \<^verbatim>\<open>part_000\<close> (lines 268-290) the \<^verbatim>\<open>try\<close> encloses the whole callback, so the
  handler returns, the failure is logged, B is closed and the registry is emptied; but
  \<^verbatim>\<open>end\<close> is in the same \<^verbatim>\<open>try\<close> block after the writes, so the throw skips it and the
  response object of A is never ended.
\<close>

theorem drain_incomplete:
  "subscribers node_AB = [sub_A, sub_B] \<and> socket sub_A = 1 \<and> socket sub_B = 2 \<and>
   runtimeHandler_src env_broken1 node_AB [] =
     (Some (Error ''EPIPE''), node_AB,
      [Status ''green'' ''dot'' 2, Called (Write 1 (''event: close'' @ LF)) (Some ''EPIPE'')]) \<and>
   length (subscribers (fst (snd (runtimeHandler_src env_broken1 node_AB [])))) = 2 \<and>
   filter is_warn (snd (snd (runtimeHandler_src env_broken1 node_AB []))) = [] \<and>
   end_calls (snd (snd (runtimeHandler_src env_broken1 node_AB []))) 1 = 0 \<and>
   end_calls (snd (snd (runtimeHandler_src env_broken1 node_AB []))) 2 = 0 \<and>
   filter (on_sock 2) (snd (snd (runtimeHandler_src env_broken1 node_AB []))) = [] \<and>
   fst (runtimeHandler_part env_broken1 node_AB []) = None \<and>
   subscribers (fst (snd (runtimeHandler_part env_broken1 node_AB []))) = [] \<and>
   length (filter is_warn (snd (snd (runtimeHandler_part env_broken1 node_AB [])))) = 1 \<and>
   list_ex (\<lambda>e. threw e \<and> on_sock 1 e) (snd (snd (runtimeHandler_part env_broken1 node_AB []))) \<and>
   end_calls (snd (snd (runtimeHandler_part env_broken1 node_AB []))) 1 = 0 \<and>
   end_calls (snd (snd (runtimeHandler_part env_broken1 node_AB []))) 2 = 1"
  by code_simp
subsection \<open>Removal\<close>

lemma findIndex_None: "(findIndex P xs = None) = (\<not> list_ex P xs)"
  by (induction xs) auto

lemma findIndex_Some:
  "findIndex P xs = Some i \<Longrightarrow> i < length xs \<and> P (xs ! i) \<and> (\<forall>j<i. \<not> P (xs ! j))"
proof (induction xs arbitrary: i)
  case Nil
  then show ?case by simp
next
  case (Cons x xs)
  show ?case
  proof (cases "P x")
    case True
    with Cons.prems show ?thesis by simp
  next
    case False
    with Cons.prems obtain k where k: "findIndex P xs = Some k" "i = Suc k" by auto
    from Cons.IH[OF k(1)] False k(2) show ?thesis
      by (auto simp: less_Suc_eq_0_disj)
  qed
qed

lemma splice1_removes:
  assumes "distinct (map f xs)" and "i < length xs"
  shows "f (xs ! i) \<notin> f ` set (splice1 i xs) \<and> distinct (map f (splice1 i xs))"
proof -
  have xs: "xs = take i xs @ xs ! i # drop (Suc i) xs"
    using assms(2) by (simp add: id_take_nth_drop)
  from assms(1) have "distinct (map f (take i xs @ xs ! i # drop (Suc i) xs))"
    using xs by simp
  then show ?thesis by (auto simp: splice1_def)
qed

text \<open>
  \<^verbatim>\<open>closeHandler\<close> of \<^verbatim>\<open>part_000\<close> when no entry has the id: no \<^verbatim>\<open>write\<close>, no
  \<^verbatim>\<open>end\<close>, no notification, the registry as it was; the status is published and the
  listener removed.
\<close>

lemma closeHandler_part_absent:
  assumes "\<not> list_ex (\<lambda>sub. sub_id sub = i) (subscribers n)"
    and "closeHandler_part E i s ip n w = (r, n', w')"
  shows "n' = n \<and>
         (\<exists>x. w' = w @ [Status ''green'' ''dot'' (length (subscribers n)),
                         Called (RemoveListener s (Closure_part i s ip)) x])"
  using assms
  by (auto simp: closeHandler_part_def findIndex_None[symmetric] invoke_def updateNodeStatus_def
      split: option.splits)

text \<open>
  \<^verbatim>\<open>unregisterSubscriber\<close> of \<^verbatim>\<open>part_000\<close> when no entry has the id: nothing is written,
  ended or sent and the registry is as it was. The warning is logged when the host has a
  global \<^verbatim>\<open>RED\<close>; otherwise evaluating \<^verbatim>\<open>RED.log.warn\<close> throws a \<^verbatim>\<open>ReferenceError\<close>.
\<close>

lemma unregisterSubscriber_part_absent:
  assumes "\<not> list_ex (\<lambda>sub. sub_id sub = msgid m) (subscribers n)"
    and "unregisterSubscriber_part E n m w = (r, n', w')"
  shows "n' = n \<and>
         (if red_global E
          then r = None \<and>
               w' = w @ [LogWarn (''Subscriber '' @ msgid m @ '' not found for unregistration'')]
          else r = Some (ReferenceError ''RED is not defined'') \<and> w' = w)"
  using assms
  by (auto simp: unregisterSubscriber_part_def findIndex_None[symmetric] warn_unbound_def
      split: option.splits)

text \<open>After \<^verbatim>\<open>closeHandler\<close> of \<^verbatim>\<open>part_000\<close> no entry has the id.\<close>

lemma closeHandler_part_removes:
  assumes "distinct (map sub_id (subscribers n))"
    and "closeHandler_part E i s ip n w = (r, n', w')"
  shows "\<not> list_ex (\<lambda>sub. sub_id sub = i) (subscribers n') \<and>
         distinct (map sub_id (subscribers n'))"
proof (cases "findIndex (\<lambda>sub. sub_id sub = i) (subscribers n)")
  case None
  with assms(2) have "n' = n"
    by (auto simp: closeHandler_part_def split: prod.splits)
  with None assms(1) show ?thesis by (simp add: findIndex_None)
next
  case (Some k)
  from findIndex_Some[OF Some] have k: "k < length (subscribers n)"
    "sub_id (subscribers n ! k) = i" by auto
  from Some assms(2) have n': "subscribers n' = splice1 k (subscribers n)"
    by (auto simp: closeHandler_part_def Let_def split: prod.splits)
  from splice1_removes[OF assms(1) k(1)] k(2)
  have "i \<notin> sub_id ` set (splice1 k (subscribers n))"
    "distinct (map sub_id (splice1 k (subscribers n)))"
    by simp_all
  then show ?thesis unfolding n' by (auto simp: list_ex_iff image_iff)
qed

text \<open>After \<^verbatim>\<open>unregisterSubscriber\<close> of \<^verbatim>\<open>part_000\<close> has returned, no entry has the id.\<close>

lemma unregisterSubscriber_part_removes:
  assumes "distinct (map sub_id (subscribers n))"
    and "unregisterSubscriber_part E n m w = (None, n', w')"
  shows "\<not> list_ex (\<lambda>sub. sub_id sub = msgid m) (subscribers n') \<and>
         distinct (map sub_id (subscribers n'))"
proof (cases "findIndex (\<lambda>sub. sub_id sub = msgid m) (subscribers n)")
  case None
  with assms(2) have "n' = n"
    by (auto simp: unregisterSubscriber_part_def split: prod.splits)
  with None assms(1) show ?thesis by (simp add: findIndex_None)
next
  case (Some k)
  from findIndex_Some[OF Some] have k: "k < length (subscribers n)"
    "sub_id (subscribers n ! k) = msgid m" by auto
  from Some assms(2) have n': "subscribers n' = splice1 k (subscribers n)"
    by (auto simp: unregisterSubscriber_part_def Let_def split: prod.splits option.splits)
  from splice1_removes[OF assms(1) k(1)] k(2)
  have "msgid m \<notin> sub_id ` set (splice1 k (subscribers n))"
    "distinct (map sub_id (splice1 k (subscribers n)))"
    by simp_all
  then show ?thesis unfolding n' by (auto simp: list_ex_iff image_iff)
qed

lemma sends_append: "sends (a @ b) = sends a @ sends b"
  by (induction a rule: sends.induct) simp_all

lemma sends_Called: "\<forall>e\<in>set new. \<exists>c x. e = Called c x \<Longrightarrow> sends new = []"
  by (induction new rule: sends.induct) auto

lemma calls_sends:
  assumes "calls E cs w = (r, w')"
  shows "\<exists>new. w' = w @ new \<and> sends new = []"
proof -
  from calls_effects[OF assms] obtain new where "w' = w @ new"
    "\<forall>e\<in>set new. \<exists>c x. e = Called c x \<and> c \<in> set cs" by blast
  moreover from this(2) have "sends new = []" by (intro sends_Called) blast
  ultimately show ?thesis by blast
qed

lemma invoke_sends:
  assumes "invoke E c w = (r, w')"
  shows "\<exists>new. w' = w @ new \<and> sends new = []"
  using assms by (auto simp: invoke_def split: option.splits)

lemma warn_unbound_sends:
  assumes "warn_unbound E l w = (r, w')"
  shows "\<exists>new. w' = w @ new \<and> sends new = []"
  using assms by (auto simp: warn_unbound_def split: if_splits)

text \<open>A broadcast pass sends no notification.\<close>

lemma sendEvent_sends:
  assumes "sendEvent E ev d i sub w = (keep, w')"
  shows "\<exists>new. w' = w @ new \<and> sends new = []"
proof -
  obtain r w1 where c: "calls E (frame E (socket sub) ev d i) w = (r, w1)" by fastforce
  from calls_sends[OF c] obtain n1 where n1: "w1 = w @ n1" "sends n1 = []" by blast
  from sendEvent_unfold[OF assms c]
  consider "w' = w1" | l y tl where "w' = w1 @ [LogWarn l, Called (End (socket sub)) y] @ tl"
    "tl = [] \<or> (\<exists>l'. tl = [LogWarn l'])"
    by blast
  then show ?thesis
  proof cases
    case 1
    with n1 show ?thesis by blast
  next
    case 2
    then have "w' = w @ (n1 @ [LogWarn l, Called (End (socket sub)) y] @ tl)"
      "sends (n1 @ [LogWarn l, Called (End (socket sub)) y] @ tl) = []"
      using n1 by (auto simp: sends_append)
    then show ?thesis by blast
  qed
qed

lemma filter_subscribers_sends:
  "filter_subscribers (sendEvent E ev d i) subs w = (kept, w') \<Longrightarrow>
   \<exists>new. w' = w @ new \<and> sends new = []"
proof (induction subs arbitrary: w kept w')
  case Nil
  then show ?case by simp
next
  case (Cons sub subs)
  obtain keep w1 where s: "sendEvent E ev d i sub w = (keep, w1)" by fastforce
  obtain kept1 w2 where f: "filter_subscribers (sendEvent E ev d i) subs w1 = (kept1, w2)"
    by fastforce
  from Cons.prems s f have res: "w' = w2" by auto
  from sendEvent_sends[OF s] obtain n1 where n1: "w1 = w @ n1" "sends n1 = []" by blast
  from Cons.IH[OF f] obtain n2 where n2: "w2 = w1 @ n2" "sends n2 = []" by blast
  from res n1 n2 have "w' = w @ (n1 @ n2)" "sends (n1 @ n2) = []" by (auto simp: sends_append)
  then show ?case by blast
qed

lemma handleServerEvent_sends:
  assumes "handleServerEvent E n m w = (r, n', w')"
  shows "\<exists>new. w' = w @ new \<and> sends new = []"
proof -
  define d where "d = serialized E (js_or (data n) (payload m))"
  from handleServerEvent_cases[OF assms refl d_def]
  consider (throw) "w' = w"
    | (pass) ev kept where
        "filter_subscribers (sendEvent E ev d (msgid m)) (subscribers n)
              (w @ [LogDebug (''Sent event: '' @ ev), LogDebug (''Data: '' @ d)]) = (kept, w')"
    by auto
  then show ?thesis
  proof cases
    case throw
    then show ?thesis by simp
  next
    case pass
    define pre where "pre = [LogDebug (''Sent event: '' @ ev), LogDebug (''Data: '' @ d)]"
    from filter_subscribers_sends[OF pass[folded pre_def]]
    obtain new where "w' = (w @ pre) @ new" "sends new = []" by blast
    then have "w' = w @ (pre @ new)" "sends (pre @ new) = []"
      by (auto simp: pre_def sends_append)
    then show ?thesis by blast
  qed
qed

text \<open>
  The notifications of \<^verbatim>\<open>part_000\<close>: one \<^verbatim>\<open>connect\<close> notification per registration that
  returns, one \<^verbatim>\<open>disconnect\<close> notification per removal of an entry, each with the size
  of the registry at that moment and the client's address.
\<close>

lemma registerSubscriber_part_sends:
  assumes "registerSubscriber_part E n m w = (r, n', w')" and "res m = Some s"
  shows "\<exists>new. w' = w @ new \<and>
           sends new =
             (if r = None
              then [m\<lparr>payload := JObj [(''event'', JStr ''connect''),
                                       (''subscribers'', JNum (int (length (subscribers n')))),
                                       (''ip'', remoteAddress E s)]\<rparr>]
              else [])"
proof -
  define pre where "pre = LogDebug ''Client connected''"
  obtain ro w1 where c: "calls E (openStream E m s) (w @ [pre]) = (ro, w1)" by fastforce
  from calls_sends[OF c] obtain n1 where n1: "w1 = (w @ [pre]) @ n1" "sends n1 = []" by blast
  define nt where "nt = m\<lparr>payload := JObj [(''event'', JStr ''connect''),
                                       (''subscribers'', JNum (int (length (subscribers n')))),
                                       (''ip'', remoteAddress E s)]\<rparr>"
  from registerSubscriber_part_trace[OF assms c[unfolded pre_def] refl]
  have "\<exists>tl. w' = w1 @ tl \<and> sends tl = (if r = None then [nt] else [])"
    unfolding nt_def by auto
  then obtain tl where tl: "w' = w1 @ tl" "sends tl = (if r = None then [nt] else [])" by blast
  have "w' = w @ (pre # n1 @ tl)" using tl(1) n1(1) by simp
  moreover have "sends (pre # n1 @ tl) = (if r = None then [nt] else [])"
    using tl(2) n1(2) by (simp add: sends_append pre_def)
  ultimately show ?thesis unfolding nt_def by blast
qed

lemma closeHandler_part_sends:
  assumes "closeHandler_part E i s ip n w = (r, n', w')"
  shows "\<exists>new. w' = w @ new \<and>
           sends new =
             (if list_ex (\<lambda>sub. sub_id sub = i) (subscribers n)
              then [\<lparr>msgid = i,
                     payload = JObj [(''event'', JStr ''disconnect''),
                                     (''subscribers'', JNum (int (length (subscribers n')))),
                                     (''ip'', ip)],
                     topic = JUndefined, res = None\<rparr>]
              else [])"
proof (cases "findIndex (\<lambda>sub. sub_id sub = i) (subscribers n)")
  case None
  then have a: "\<not> list_ex (\<lambda>sub. sub_id sub = i) (subscribers n)" by (simp add: findIndex_None)
  from closeHandler_part_absent[OF a assms] a show ?thesis by auto
next
  case (Some k)
  then have a: "list_ex (\<lambda>sub. sub_id sub = i) (subscribers n)"
    using findIndex_None[of "\<lambda>sub. sub_id sub = i" "subscribers n"] by auto
  define sk where "sk = socket (subscribers n ! k)"
  define cs where "cs = frame E sk ''close'' ''The connection was closed by the client.'' i @ [End sk]"
  define nt where "nt = \<lparr>msgid = i,
                     payload = JObj [(''event'', JStr ''disconnect''),
                                     (''subscribers'', JNum (int (length (subscribers n')))),
                                     (''ip'', ip)],
                     topic = JUndefined, res = None\<rparr>"
  obtain r1 w1 where c: "calls E cs w = (r1, w1)" by fastforce
  from calls_sends[OF c] obtain n1 where n1: "w1 = w @ n1" "sends n1 = []" by blast
  from assms Some c have "\<exists>tl. w' = w1 @ tl \<and> sends tl = [nt]"
    unfolding nt_def
    by (auto simp: closeHandler_part_def Let_def cs_def sk_def invoke_def updateNodeStatus_def
        split: option.splits)
  then obtain tl where tl: "w' = w1 @ tl" "sends tl = [nt]" by blast
  have "w' = w @ (n1 @ tl)" using tl(1) n1(1) by simp
  moreover have "sends (n1 @ tl) = [nt]" using tl(2) n1(2) by (simp add: sends_append)
  ultimately show ?thesis using a unfolding nt_def by auto
qed

lemma unregisterSubscriber_part_sends:
  assumes "unregisterSubscriber_part E n m w = (r, n', w')" and "res m = Some s"
  shows "\<exists>new. w' = w @ new \<and>
           sends new =
             (if r = None \<and> list_ex (\<lambda>sub. sub_id sub = msgid m) (subscribers n)
              then [m\<lparr>payload := JObj [(''event'', JStr ''disconnect''),
                                       (''subscribers'', JNum (int (length (subscribers n')))),
                                       (''ip'', remoteAddress E s)]\<rparr>]
              else [])"
proof (cases "findIndex (\<lambda>sub. sub_id sub = msgid m) (subscribers n)")
  case None
  then have a: "\<not> list_ex (\<lambda>sub. sub_id sub = msgid m) (subscribers n)"
    by (simp add: findIndex_None)
  from unregisterSubscriber_part_absent[OF a assms(1)] a show ?thesis
    by (auto split: if_splits)
next
  case (Some k)
  then have a: "list_ex (\<lambda>sub. sub_id sub = msgid m) (subscribers n)"
    using findIndex_None[of "\<lambda>sub. sub_id sub = msgid m" "subscribers n"] by auto
  define nt where "nt = m\<lparr>payload := JObj [(''event'', JStr ''disconnect''),
                                       (''subscribers'', JNum (int (length (subscribers n')))),
                                       (''ip'', remoteAddress E s)]\<rparr>"
  define l1 where "l1 = ''Error writing close event: ''"
  define l2 where "l2 = ''Error removing close listener: ''"
  define l3 where "l3 = ''Error closing response: ''"
  define fr where "fr = frame E s ''close'' ''The connection was closed by the server.'' (msgid m)"
  from assms Some have "\<exists>new. w' = w @ new \<and> sends new = (if r = None then [nt] else [])"
    unfolding nt_def unregisterSubscriber_part_def Let_def l1_def[symmetric] l2_def[symmetric]
      l3_def[symmetric] fr_def[symmetric]
    by (auto simp: sends_append split: option.splits prod.splits
        dest!: calls_sends invoke_sends warn_unbound_sends)
  with a show ?thesis unfolding nt_def by simp
qed

text \<open>
  \<^verbatim>\<open>_runtimeHandler\<close> of \<^verbatim>\<open>part_000\<close> makes transport calls only on the response objects
  of the entries in the registry, and empties the registry.
\<close>

lemma runtimeHandler_part_touched:
  assumes "runtimeHandler_part E n w = (r, n', w')"
  shows "\<exists>new. w' = w @ new \<and> touched new \<subseteq> socket ` set (subscribers n) \<and>
           subscribers n' = []"
proof -
  define st where "st = Status ''green'' ''dot'' (length (subscribers n))"
  obtain r1 w1 where f:
    "forEach (closeSubscriber_part E) (subscribers n) (w @ [st]) = (r1, w1)" by fastforce
  from forEach_closeSubscriber_part[OF f] obtain new where r1: "r1 = None" and new:
    "w1 = (w @ [st]) @ new" "touched new \<subseteq> socket ` set (subscribers n)"
    by blast
  from assms f r1 have res: "subscribers n' = []" "w' = w1"
    by (auto simp: runtimeHandler_part_def updateNodeStatus_def st_def)
  have "touched [st] = {}" by (simp add: touched_def st_def)
  with new(2) have "touched ([st] @ new) \<subseteq> socket ` set (subscribers n)"
    unfolding touched_append by simp
  moreover have "w' = w @ ([st] @ new)" using res(2) new(1) by simp
  ultimately show ?thesis using res(1) by blast
qed

text \<open>
  C3 (exactly-once removal) does not hold in \<^verbatim>\<open>sse-server.js\<close>. A subscriber is
  registered, a runtime event drains the node (the stream is ended, the registry emptied, the
  close listener left in place), then the close callback of that connection fires: it finds
  no entry and all the same writes a close frame, sends a \<^verbatim>\<open>disconnect\<close> notification and
  calls \<^verbatim>\<open>end\<close> a second time on the same stream. In \<^verbatim>\<open>part_000\<close> the late trigger
  does none of this (\<open>closeHandler_part_absent\<close>, \<open>unregisterSubscriber_part_absent\<close>,
  \<open>closeHandler_part_removes\<close>, \<open>unregisterSubscriber_part_removes\<close>,
  \<open>runtimeHandler_part_touched\<close>).
\<close>

theorem removal_twice_src:
  "(case on_input Src env_ok node0 (reg ''m1'' 1) True [] of
      (n1, w1) \<Rightarrow>
        (case runtimeHandler_src env_ok n1 w1 of
           (r2, n2, w2) \<Rightarrow>
             (case closeHandler_src env_ok captured_m1 n2 w2 of
                (r3, n3, w3) \<Rightarrow>
                  map sub_id (subscribers n1) = [''m1''] \<and>
                  list_ex (\<lambda>e. e = Called (On 1 (Closure_src captured_m1)) None) w1 \<and>
                  r2 = None \<and> subscribers n2 = [] \<and> end_calls w2 1 = 1 \<and>
                  r3 = None \<and> subscribers n3 = [] \<and> end_calls w3 1 = 2 \<and>
                  drop (length w2) w3 =
                    [Called (Write 1 (''event: close'' @ LF)) None,
                     Called (Write 1 (''data: The connection was closed by the server.'' @ LF)) None,
                     Called (Write 1 (''id: m1'' @ LF @ LF)) None,
                     Called (Flush 1) None,
                     Send ((reg ''m1'' 1)\<lparr>payload := JObj [(''event'', JStr ''disconnect'')]\<rparr>),
                     Called (End 1) None,
                     Status ''green'' ''dot'' 0,
                     Called (RemoveListener 1 (Closure_src captured_m1)) None])))"
  by code_simp

text \<open>
  C5 (unregistration of an unknown id is a no-op) does not hold in \<^verbatim>\<open>sse-server.js\<close>:
  \<^verbatim>\<open>unregisterSubscriber\<close> has no lookup, so for an id that matches no entry it writes the
  close frame, sends a \<^verbatim>\<open>disconnect\<close> notification and ends the stream; no warning is
  logged. In \<^verbatim>\<open>part_000\<close> nothing is written, ended or sent and the registry is unchanged,
  but the warning is logged only when the host has a global \<^verbatim>\<open>RED\<close>
  (\<open>unregisterSubscriber_part_absent\<close>).
\<close>

theorem unregister_not_found_src:
  "subscribers node0 = [] \<and>
   unregisterSubscriber_src env_ok node0 (reg ''m1'' 1) [] =
     (None, node0,
      [Called (Write 1 (''event: close'' @ LF)) None,
       Called (Write 1 (''data: The connection was closed by the server.'' @ LF)) None,
       Called (Write 1 (''id: m1'' @ LF @ LF)) None,
       Called (Flush 1) None,
       Send ((reg ''m1'' 1)\<lparr>payload := JObj [(''event'', JStr ''disconnect'')]\<rparr>),
       Called (End 1) None])"
  by code_simp

text \<open>
  C6 (notification shape) does not hold in \<^verbatim>\<open>sse-server.js\<close>: its \<^verbatim>\<open>connect\<close> and
  \<^verbatim>\<open>disconnect\<close> notifications carry the \<^verbatim>\<open>event\<close> field only, neither the subscriber
  count nor the client's address. In \<^verbatim>\<open>part_000\<close> they carry both
  (\<open>registerSubscriber_part_sends\<close>, \<open>closeHandler_part_sends\<close>,
  \<open>unregisterSubscriber_part_sends\<close>), and a broadcast pass sends no notification in either
  file (\<open>handleServerEvent_sends\<close>).
\<close>

theorem notification_shape_src:
  "map payload (sends (snd (snd (registerSubscriber_src env_ok node0 (reg ''m1'' 1) []))))
     = [JObj [(''event'', JStr ''connect'')]] \<and>
   map payload (sends (snd (snd (unregisterSubscriber_src env_ok node_AB (reg ''m1'' 1) []))))
     = [JObj [(''event'', JStr ''disconnect'')]] \<and>
   map (\<lambda>m. field ''subscribers'' (payload m))
       (sends (snd (snd (registerSubscriber_src env_ok node0 (reg ''m1'' 1) [])))) = [JUndefined] \<and>
   map (\<lambda>m. field ''ip'' (payload m))
       (sends (snd (snd (registerSubscriber_src env_ok node0 (reg ''m1'' 1) [])))) = [JUndefined]"
  by code_simp

end
